theory Spec2Isabelle
  imports Main "HOL-Library.Word"
begin

unbundle bit_operations_syntax

section \<open>SipHash of relayd (usr.sbin/relayd/siphash.c)\<close>

text \<open>
  The file implements SipHash-c-d: \<open>SipHash_Init\<close>, \<open>SipHash_Update\<close>,
  \<open>SipHash_End\<close>/\<open>SipHash_Final\<close>, the one-shot \<open>SipHash\<close>, and the two helpers
  \<open>SipHash_Rounds\<close> and \<open>SipHash_CRounds\<close>. Each C function becomes a HOL function
  of the same name. A function that writes through \<open>SIPHASH_CTX *ctx\<close> takes the
  object \<open>*ctx\<close> and returns the new one; undefined behaviour is a \<open>fault\<close> in the
  result. Where the code uses the value of a pointer as a number, the function also
  takes that address. The two branches of each \<open>#ifdef __FreeBSD__\<close> are the two
  cases of the \<open>platform\<close> of the target.
\<close>

subsection \<open>Machine types\<close>

type_synonym u8 = "8 word"
type_synonym u64 = "64 word"

text \<open>
  C \<open>int\<close>: 32 bits, two's complement, read with \<open>sint\<close>. Arithmetic on it does
  not wrap in C: an overflow is undefined behaviour, which the model reports as a fault.
\<close>

type_synonym c_int = "32 word"

text \<open>A pointer converted to an integer (LP64: 64 bits).\<close>

type_synonym addr = "64 word"

definition INT_MIN :: c_int where
  "INT_MIN = 0x80000000"

text \<open>
  Undefined behaviour the code can run into: the decrement of \<open>INT_MIN\<close> in
  \<open>while (rounds--)\<close>, and a \<open>memcpy\<close> that runs past the end of \<open>ctx->buf\<close>.
\<close>

datatype fault = SignedOverflow | BufferOverflow

subsection \<open>The build target\<close>

text \<open>
  The source has two variants, selected by \<open>#ifdef __FreeBSD__\<close>. \<open>OpenBSD\<close> names
  the \<open>#else\<close> branch (the file is OpenBSD's, \<open>lemtoh64\<close> and \<open>htolem64\<close> are
  OpenBSD's macros). The FreeBSD macros \<open>le64toh\<close> and \<open>htole64\<close> depend on the
  byte order of the host.
\<close>

datatype platform = FreeBSD | OpenBSD

datatype byte_order = LittleEndian | BigEndian

record target =
  platform :: platform
  host :: byte_order

subsection \<open>Endian conversion macros of the system headers\<close>

text \<open>
  Modelled from the spec: \<open>lemtoh64\<close> and \<open>htolem64\<close> come from the system
  headers, not from this file. \<open>lemtoh64(p)\<close> loads the eight bytes at \<open>p\<close> as a
  little-endian number (the spec: "interpret that block as a little-endian 64-bit
  integer", on every host); \<open>htolem64(p, v)\<close> stores \<open>v\<close> at \<open>p\<close> in that order.
  Memory is a list of bytes in address order, so the host's byte order does not enter.
\<close>

definition lemtoh64 :: "u8 list \<Rightarrow> u64" where
  "lemtoh64 bs = foldr (\<lambda>b w. push_bit 8 w OR ucast b) (take 8 bs) 0"

definition htolem64 :: "u64 \<Rightarrow> u8 list" where
  "htolem64 x = map (\<lambda>i. ucast (drop_bit (8 * i) x)) [0..<8]"

definition bswap64 :: "u64 \<Rightarrow> u64" where
  "bswap64 x = lemtoh64 (rev (htolem64 x))"

text \<open>
  FreeBSD's \<open>le64toh(x)\<close> and \<open>htole64(x)\<close> of \<open><sys/endian.h>\<close> convert the
  64-bit VALUE \<open>x\<close>: \<open>((uint64_t)(x))\<close> on a little-endian host, \<open>bswap64(x)\<close> on a
  big-endian one. They do not read or write memory; line 136 of the source uses
  \<open>htole64(r)\<close> as such a value. Where the source hands them a pointer, \<open>x\<close> is the
  address.
\<close>

definition le64toh :: "target \<Rightarrow> u64 \<Rightarrow> u64" where
  "le64toh tgt x = (case host tgt of LittleEndian \<Rightarrow> x | BigEndian \<Rightarrow> bswap64 x)"

definition htole64 :: "target \<Rightarrow> u64 \<Rightarrow> u64" where
  "htole64 tgt x = (case host tgt of LittleEndian \<Rightarrow> x | BigEndian \<Rightarrow> bswap64 x)"

subsection \<open>The key and the computation object\<close>

text \<open>
  Modelled from the spec: \<open>siphash.h\<close>, which declares \<open>SIPHASH_KEY\<close> and
  \<open>SIPHASH_CTX\<close>, is not among the sources. The key is two 64-bit members \<open>k0\<close>,
  \<open>k1\<close>, each given here by its eight bytes in memory; the context is the four state
  words \<open>v[0..3]\<close>, the 8-byte staging buffer \<open>buf\<close> and the byte counter \<open>bytes\<close>
  (64 bits in the spec). \<open>k1\<close> lies 8 bytes after the start of the key, \<open>buf\<close> 32 bytes
  after the start of the context (behind the four state words).
\<close>

record SIPHASH_KEY =
  k0 :: "u8 list"
  k1 :: "u8 list"

record SIPHASH_CTX =
  v0 :: u64
  v1 :: u64
  v2 :: u64
  v3 :: u64
  buf :: "u8 list"
  bytes :: u64

definition offsetof_k1 :: addr where
  "offsetof_k1 = 8"

definition offsetof_buf :: addr where
  "offsetof_buf = 32"

definition sizeof_buf :: nat where
  "sizeof_buf = 8"

subsection \<open>\<open>SipHash_Rounds\<close>\<close>

text \<open>\<open>#define SIP_ROTL(x, b) ((x) << (b)) | ( (x) >> (64 - (b)))\<close>\<close>

definition SIP_ROTL :: "u64 \<Rightarrow> nat \<Rightarrow> u64" where
  "SIP_ROTL x b = push_bit b x OR drop_bit (64 - b) x"

text \<open>The body of the loop of \<open>SipHash_Rounds\<close>, statement by statement.\<close>

definition SipRound :: "SIPHASH_CTX \<Rightarrow> SIPHASH_CTX" where
  "SipRound ctx0 =
    (let ctx = ctx0\<lparr>v0 := v0 ctx0 + v1 ctx0\<rparr>;
         ctx = ctx\<lparr>v2 := v2 ctx + v3 ctx\<rparr>;
         ctx = ctx\<lparr>v1 := SIP_ROTL (v1 ctx) 13\<rparr>;
         ctx = ctx\<lparr>v3 := SIP_ROTL (v3 ctx) 16\<rparr>;

         ctx = ctx\<lparr>v1 := v1 ctx XOR v0 ctx\<rparr>;
         ctx = ctx\<lparr>v3 := v3 ctx XOR v2 ctx\<rparr>;
         ctx = ctx\<lparr>v0 := SIP_ROTL (v0 ctx) 32\<rparr>;

         ctx = ctx\<lparr>v2 := v2 ctx + v1 ctx\<rparr>;
         ctx = ctx\<lparr>v0 := v0 ctx + v3 ctx\<rparr>;
         ctx = ctx\<lparr>v1 := SIP_ROTL (v1 ctx) 17\<rparr>;
         ctx = ctx\<lparr>v3 := SIP_ROTL (v3 ctx) 21\<rparr>;

         ctx = ctx\<lparr>v1 := v1 ctx XOR v2 ctx\<rparr>;
         ctx = ctx\<lparr>v3 := v3 ctx XOR v0 ctx\<rparr>;
         ctx = ctx\<lparr>v2 := SIP_ROTL (v2 ctx) 32\<rparr>
     in ctx)"

text \<open>
  \<open>while (rounds--) { ... }\<close>: the test reads \<open>rounds\<close> and then decrements it. At
  \<open>INT_MIN\<close> the decrement overflows; at zero the loop ends; otherwise the body runs
  and the loop goes on with \<open>rounds - 1\<close>.
\<close>

function SipHash_Rounds :: "SIPHASH_CTX \<Rightarrow> c_int \<Rightarrow> fault + SIPHASH_CTX" where
  "SipHash_Rounds ctx rounds =
    (if rounds = INT_MIN then Inl SignedOverflow
     else if rounds = 0 then Inr ctx
     else SipHash_Rounds (SipRound ctx) (rounds - 1))"
  by pat_completeness auto
termination
proof (relation "measure (\<lambda>(ctx, rounds). unat (rounds - INT_MIN))")
  show "wf (measure (\<lambda>(ctx, rounds). unat (rounds - INT_MIN)))" by simp
next
  fix ctx :: SIPHASH_CTX and rounds :: c_int
  assume "rounds \<noteq> INT_MIN"
  then have nz: "rounds - INT_MIN \<noteq> 0" by simp
  have "rounds - 1 - INT_MIN = (rounds - INT_MIN) - 1" by simp
  then have "unat (rounds - 1 - INT_MIN) = unat (rounds - INT_MIN) - 1"
    using unat_minus_one [OF nz] by (simp only:)
  moreover have "unat (rounds - INT_MIN) \<noteq> 0"
    using nz by (simp add: unat_eq_zero)
  ultimately show "((SipRound ctx, rounds - 1), (ctx, rounds))
      \<in> measure (\<lambda>(ctx, rounds). unat (rounds - INT_MIN))"
    by simp
qed

declare SipHash_Rounds.simps [simp del]

subsection \<open>\<open>SipHash_CRounds\<close>\<close>

text \<open>
  \<open>m\<close> is \<open>le64toh((u_int64_t *)ctx->buf)\<close> under \<open>__FreeBSD__\<close>, the conversion of
  the pointer's value, and \<open>lemtoh64((u_int64_t *)ctx->buf)\<close> otherwise, the load of
  the buffer. \<open>ctx_p\<close> is the address held by the pointer \<open>ctx\<close>.
\<close>

definition SipHash_CRounds ::
  "target \<Rightarrow> addr \<Rightarrow> SIPHASH_CTX \<Rightarrow> c_int \<Rightarrow> fault + SIPHASH_CTX" where
  "SipHash_CRounds tgt ctx_p ctx0 rounds =
    (let m = (case platform tgt of
                FreeBSD \<Rightarrow> le64toh tgt (ctx_p + offsetof_buf)
              | OpenBSD \<Rightarrow> lemtoh64 (buf ctx0));
         ctx = ctx0\<lparr>v3 := v3 ctx0 XOR m\<rparr>
     in case SipHash_Rounds ctx rounds of
          Inl e \<Rightarrow> Inl e
        | Inr ctx \<Rightarrow> Inr (ctx\<lparr>v0 := v0 ctx XOR m\<rparr>))"

subsection \<open>\<open>SipHash_Init\<close>\<close>

text \<open>
  \<open>key_p\<close> is the address held by the pointer \<open>key\<close>, \<open>key\<close> the object there. Every
  member of \<open>*ctx\<close> is written, so the result does not depend on what \<open>*ctx\<close> held.
\<close>

definition SipHash_Init :: "target \<Rightarrow> addr \<Rightarrow> SIPHASH_KEY \<Rightarrow> SIPHASH_CTX" where
  "SipHash_Init tgt key_p key =
    (let k0' = (case platform tgt of
                  FreeBSD \<Rightarrow> le64toh tgt key_p
                | OpenBSD \<Rightarrow> lemtoh64 (k0 key));
         k1' = (case platform tgt of
                  FreeBSD \<Rightarrow> le64toh tgt (key_p + offsetof_k1)
                | OpenBSD \<Rightarrow> lemtoh64 (k1 key))
     in \<lparr>v0 = 0x736f6d6570736575 XOR k0',
         v1 = 0x646f72616e646f6d XOR k1',
         v2 = 0x6c7967656e657261 XOR k0',
         v3 = 0x7465646279746573 XOR k1',
         buf = replicate sizeof_buf 0,
         bytes = 0\<rparr>)"

subsection \<open>\<open>SipHash_Update\<close>\<close>

text \<open>
  \<open>memcpy(&ctx->buf[off], ptr, n)\<close>: the first \<open>n\<close> bytes at \<open>ptr\<close> replace
  \<open>buf[off .. off + n - 1]\<close>. A copy that does not fit into the 8 bytes of \<open>buf\<close>
  writes past the array.
\<close>

definition memcpy_buf :: "u8 list \<Rightarrow> nat \<Rightarrow> u8 list \<Rightarrow> nat \<Rightarrow> fault + u8 list" where
  "memcpy_buf b off ptr n =
    (if off + n \<le> sizeof_buf then Inr (take off b @ take n ptr @ drop (off + n) b)
     else Inl BufferOverflow)"

text \<open>
  The input is the list of the bytes from \<open>ptr\<close> on, \<open>len\<close> is its length;
  \<open>ptr += n; len -= n\<close> drops \<open>n\<close> bytes. The loop of lines 117-122:
\<close>

function Update_loop ::
  "target \<Rightarrow> addr \<Rightarrow> SIPHASH_CTX \<Rightarrow> c_int \<Rightarrow> u8 list \<Rightarrow> fault + (SIPHASH_CTX \<times> u8 list)" where
  "Update_loop tgt ctx_p ctx rc ptr =
    (if length ptr \<ge> sizeof_buf then
       case memcpy_buf (buf ctx) 0 ptr sizeof_buf of
         Inl e \<Rightarrow> Inl e
       | Inr b \<Rightarrow>
           (case SipHash_CRounds tgt ctx_p (ctx\<lparr>buf := b\<rparr>) rc of
              Inl e \<Rightarrow> Inl e
            | Inr ctx' \<Rightarrow> Update_loop tgt ctx_p ctx' rc (drop sizeof_buf ptr))
     else Inr (ctx, ptr))"
  by pat_completeness auto
termination
  by (relation "measure (\<lambda>(tgt, ctx_p, ctx, rc, ptr). length ptr)")
     (auto simp: sizeof_buf_def)

declare Update_loop.simps [simp del]

text \<open>
  Lines 117-125, which both the path with an empty staging buffer and the path
  after the top-up run: the loop, then the copy of the tail to \<open>&ctx->buf[used]\<close>.
\<close>

definition Update_rest ::
  "target \<Rightarrow> addr \<Rightarrow> SIPHASH_CTX \<Rightarrow> c_int \<Rightarrow> nat \<Rightarrow> u8 list \<Rightarrow> fault + SIPHASH_CTX" where
  "Update_rest tgt ctx_p ctx0 rc used ptr0 =
    (case Update_loop tgt ctx_p ctx0 rc ptr0 of
       Inl e \<Rightarrow> Inl e
     | Inr (ctx, ptr) \<Rightarrow>
         if length ptr > 0 then
           (case memcpy_buf (buf ctx) used ptr (length ptr) of
              Inl e \<Rightarrow> Inl e
            | Inr b \<Rightarrow> Inr (ctx\<lparr>buf := b\<rparr>))
         else Inr ctx)"

definition SipHash_Update ::
  "target \<Rightarrow> addr \<Rightarrow> SIPHASH_CTX \<Rightarrow> c_int \<Rightarrow> c_int \<Rightarrow> u8 list \<Rightarrow> fault + SIPHASH_CTX" where
  "SipHash_Update tgt ctx_p ctx0 rc rf src =
    (let ptr = src; len = length src in
     if len = 0 then Inr ctx0
     else
       let used = unat (bytes ctx0) mod sizeof_buf;
           ctx = ctx0\<lparr>bytes := bytes ctx0 + of_nat len\<rparr>
       in
         if used > 0 then
           let free = sizeof_buf - used in
           if len \<ge> free then
             (case memcpy_buf (buf ctx) used ptr free of
                Inl e \<Rightarrow> Inl e
              | Inr b \<Rightarrow>
                  (case SipHash_CRounds tgt ctx_p (ctx\<lparr>buf := b\<rparr>) rc of
                     Inl e \<Rightarrow> Inl e
                   | Inr ctx \<Rightarrow> Update_rest tgt ctx_p ctx rc used (drop free ptr)))
           else
             (case memcpy_buf (buf ctx) used ptr len of
                Inl e \<Rightarrow> Inl e
              | Inr b \<Rightarrow> Inr (ctx\<lparr>buf := b\<rparr>))
         else Update_rest tgt ctx_p ctx rc used ptr)"

subsection \<open>\<open>SipHash_End\<close> and \<open>SipHash_Final\<close>\<close>

text \<open>\<open>memset(&ctx->buf[off], c, n)\<close>; in \<open>SipHash_End\<close> \<open>off + n\<close> is 7.\<close>

definition memset_buf :: "u8 list \<Rightarrow> nat \<Rightarrow> u8 \<Rightarrow> nat \<Rightarrow> u8 list" where
  "memset_buf b off c n = take off b @ replicate n c @ drop (off + n) b"

text \<open>\<open>explicit_bzero(ctx, sizeof(*ctx))\<close>: every byte of the object becomes zero.\<close>

definition explicit_bzero :: "SIPHASH_CTX \<Rightarrow> SIPHASH_CTX" where
  "explicit_bzero ctx =
     \<lparr>v0 = 0, v1 = 0, v2 = 0, v3 = 0, buf = replicate sizeof_buf 0, bytes = 0\<rparr>"

text \<open>The result is the digest \<open>r\<close> and the object \<open>*ctx\<close> as the call leaves it.\<close>

definition SipHash_End ::
  "target \<Rightarrow> addr \<Rightarrow> SIPHASH_CTX \<Rightarrow> c_int \<Rightarrow> c_int \<Rightarrow> fault + (u64 \<times> SIPHASH_CTX)" where
  "SipHash_End tgt ctx_p ctx0 rc rf =
    (let used = unat (bytes ctx0) mod sizeof_buf;
         free = sizeof_buf - used;
         ctx = ctx0\<lparr>buf := memset_buf (buf ctx0) used 0 (free - 1)\<rparr>;
         ctx = ctx\<lparr>buf := (buf ctx)[7 := ucast (bytes ctx)]\<rparr>
     in case SipHash_CRounds tgt ctx_p ctx rc of
          Inl e \<Rightarrow> Inl e
        | Inr ctx \<Rightarrow>
            let ctx = ctx\<lparr>v2 := v2 ctx XOR 0xff\<rparr> in
            (case SipHash_Rounds ctx rf of
               Inl e \<Rightarrow> Inl e
             | Inr ctx \<Rightarrow>
                 let r = (v0 ctx XOR v1 ctx) XOR (v2 ctx XOR v3 ctx)
                 in Inr (r, explicit_bzero ctx)))"

text \<open>
  \<open>dst\<close> is the eight bytes the pointer \<open>dst\<close> points to when the function is called;
  the result is those bytes and \<open>*ctx\<close> when it returns. Under \<open>__FreeBSD__\<close> the
  statement is \<open>dst = (u_int64_t *)htole64(r);\<close>: it gives the parameter \<open>dst\<close>
  itself a new value, which nothing reads, and writes no memory. Otherwise
  \<open>htolem64((u_int64_t *)dst, r)\<close> stores \<open>r\<close> there.
\<close>

definition SipHash_Final ::
  "target \<Rightarrow> u8 list \<Rightarrow> addr \<Rightarrow> SIPHASH_CTX \<Rightarrow> c_int \<Rightarrow> c_int
     \<Rightarrow> fault + (u8 list \<times> SIPHASH_CTX)" where
  "SipHash_Final tgt dst ctx_p ctx0 rc rf =
    (case SipHash_End tgt ctx_p ctx0 rc rf of
       Inl e \<Rightarrow> Inl e
     | Inr (r, ctx) \<Rightarrow>
         (case platform tgt of
            FreeBSD \<Rightarrow> (let dst_p = htole64 tgt r in Inr (dst, ctx))
          | OpenBSD \<Rightarrow> Inr (htolem64 r, ctx)))"

subsection \<open>\<open>SipHash\<close>\<close>

text \<open>\<open>ctx_p\<close> is the address of the automatic variable \<open>ctx\<close>.\<close>

definition SipHash ::
  "target \<Rightarrow> addr \<Rightarrow> addr \<Rightarrow> SIPHASH_KEY \<Rightarrow> c_int \<Rightarrow> c_int \<Rightarrow> u8 list \<Rightarrow> fault + u64" where
  "SipHash tgt ctx_p key_p key rc rf src =
    (let ctx = SipHash_Init tgt key_p key in
     case SipHash_Update tgt ctx_p ctx rc rf src of
       Inl e \<Rightarrow> Inl e
     | Inr ctx \<Rightarrow>
         (case SipHash_End tgt ctx_p ctx rc rf of
            Inl e \<Rightarrow> Inl e
          | Inr (r, ctx) \<Rightarrow> Inr r))"

subsection \<open>The streaming sequence of a caller\<close>

text \<open>One \<open>SipHash_Update\<close> per chunk, in order, on the same object.\<close>

fun SipHash_Updates ::
  "target \<Rightarrow> addr \<Rightarrow> SIPHASH_CTX \<Rightarrow> c_int \<Rightarrow> c_int \<Rightarrow> u8 list list \<Rightarrow> fault + SIPHASH_CTX" where
  "SipHash_Updates tgt ctx_p ctx rc rf [] = Inr ctx"
| "SipHash_Updates tgt ctx_p ctx rc rf (chunk # chunks) =
     (case SipHash_Update tgt ctx_p ctx rc rf chunk of
        Inl e \<Rightarrow> Inl e
      | Inr ctx' \<Rightarrow> SipHash_Updates tgt ctx_p ctx' rc rf chunks)"

text \<open>\<open>SipHash_Init\<close>, the updates, \<open>SipHash_End\<close>; the result is the digest.\<close>

definition SipHash_stream ::
  "target \<Rightarrow> addr \<Rightarrow> addr \<Rightarrow> SIPHASH_KEY \<Rightarrow> c_int \<Rightarrow> c_int \<Rightarrow> u8 list list \<Rightarrow> fault + u64" where
  "SipHash_stream tgt ctx_p key_p key rc rf chunks =
    (case SipHash_Updates tgt ctx_p (SipHash_Init tgt key_p key) rc rf chunks of
       Inl e \<Rightarrow> Inl e
     | Inr ctx \<Rightarrow>
         (case SipHash_End tgt ctx_p ctx rc rf of
            Inl e \<Rightarrow> Inl e
          | Inr (r, ctx) \<Rightarrow> Inr r))"

subsection \<open>What the specification says, in its own words\<close>

text \<open>
  The four state words of a context, and one SipRound as the specification writes it:
  fourteen steps on \<open>(v0, v1, v2, v3)\<close>, additions modulo \<open>2^64\<close> (the addition of
  \<open>64 word\<close>), \<open>rotl\<close> the circular left rotation of a 64-bit word.
\<close>

definition state_words :: "SIPHASH_CTX \<Rightarrow> u64 \<times> u64 \<times> u64 \<times> u64" where
  "state_words ctx = (v0 ctx, v1 ctx, v2 ctx, v3 ctx)"

definition SipRound_spec :: "u64 \<times> u64 \<times> u64 \<times> u64 \<Rightarrow> u64 \<times> u64 \<times> u64 \<times> u64" where
  "SipRound_spec s =
    (case s of (a, b, c, d) \<Rightarrow>
       let a = a + b; c = c + d; b = word_rotl 13 b; d = word_rotl 16 d;
           b = b XOR a; d = d XOR c; a = word_rotl 32 a;
           c = c + b; a = a + d; b = word_rotl 17 b; d = word_rotl 21 d;
           b = b XOR c; d = d XOR a; c = word_rotl 32 c
       in (a, b, c, d))"

text \<open>
  The absorption of one block \<open>m\<close> as the specification writes it: \<open>v3 ^= m\<close>, then
  \<open>rc\<close> rounds, then \<open>v0 ^= m\<close>.
\<close>

definition compress_spec ::
  "nat \<Rightarrow> u64 \<Rightarrow> u64 \<times> u64 \<times> u64 \<times> u64 \<Rightarrow> u64 \<times> u64 \<times> u64 \<times> u64" where
  "compress_spec rc m s =
    (case s of (a, b, c, d) \<Rightarrow>
       (case (SipRound_spec ^^ rc) (a, b, c, d XOR m) of
          (a, b, c, d) \<Rightarrow> (a XOR m, b, c, d)))"

text \<open>
  All complete 8-byte blocks of a byte string absorbed in order, as the specification
  writes it: each block read little-endian and absorbed with \<open>rc\<close> rounds.
\<close>

function blocks_spec ::
  "nat \<Rightarrow> u8 list \<Rightarrow> u64 \<times> u64 \<times> u64 \<times> u64 \<Rightarrow> u64 \<times> u64 \<times> u64 \<times> u64" where
  "blocks_spec rc s w =
    (if 8 \<le> length s
     then blocks_spec rc (drop 8 s) (compress_spec rc (lemtoh64 (take 8 s)) w)
     else w)"
  by pat_completeness auto
termination
  by (relation "measure (\<lambda>(rc, s, w). length s)") auto

declare blocks_spec.simps [simp del]

text \<open>
  The invariant of the specification speaks of the valid bytes of the staging buffer,
  the first (byte count modulo 8) bytes of \<open>buf\<close>, and of the trailing bytes of the
  input that no full block has taken yet.
\<close>

definition staged :: "SIPHASH_CTX \<Rightarrow> u8 list" where
  "staged ctx = take (unat (bytes ctx) mod 8) (buf ctx)"

definition trailing :: "u8 list \<Rightarrow> u8 list" where
  "trailing s = drop (length s - length s mod 8) s"

text \<open>
  Finalization as the specification writes it. The final block: the valid bytes of the
  staging buffer (the byte count modulo 8 of them), zeros up to the last slot, and in
  the last slot the byte count modulo 256. The digest: that block read little-endian
  and absorbed with \<open>rc\<close> rounds, \<open>v2 ^= 0xff\<close>, \<open>rf\<close> rounds,
  \<open>(v0 XOR v1) XOR (v2 XOR v3)\<close>.
\<close>

definition final_block :: "u8 list \<Rightarrow> u64 \<Rightarrow> u8 list" where
  "final_block staging count =
     take (unat count mod 8) staging @ replicate (7 - unat count mod 8) 0
       @ [of_nat (unat count mod 256)]"

definition SipHash_End_spec :: "SIPHASH_CTX \<Rightarrow> nat \<Rightarrow> nat \<Rightarrow> u64" where
  "SipHash_End_spec ctx rc rf =
    (case compress_spec rc (lemtoh64 (final_block (buf ctx) (bytes ctx))) (state_words ctx) of
       (a, b, c, d) \<Rightarrow>
         (case (SipRound_spec ^^ rf) (a, b, c XOR 0xff, d) of
            (a, b, c, d) \<Rightarrow> (a XOR b) XOR (c XOR d)))"

text \<open>
  SipHash-c-d of a byte string as the specification puts it together: the initial state
  from the key halves, every complete block absorbed, the final block (trailing bytes,
  zeros, length modulo 256) absorbed, \<open>v2 ^= 0xff\<close>, \<open>rf\<close> rounds, the fold.
\<close>

definition SipHash_spec :: "u64 \<Rightarrow> u64 \<Rightarrow> nat \<Rightarrow> nat \<Rightarrow> u8 list \<Rightarrow> u64" where
  "SipHash_spec key0 key1 rc rf s =
    (case compress_spec rc
            (lemtoh64 (trailing s @ replicate (7 - length s mod 8) 0
                         @ [of_nat (length s mod 256)]))
            (blocks_spec rc s
               (0x736f6d6570736575 XOR key0, 0x646f72616e646f6d XOR key1,
                0x6c7967656e657261 XOR key0, 0x7465646279746573 XOR key1)) of
       (a, b, c, d) \<Rightarrow>
         (case (SipRound_spec ^^ rf) (a, b, c XOR 0xff, d) of
            (a, b, c, d) \<Rightarrow> (a XOR b) XOR (c XOR d)))"

subsection \<open>Auxiliary notions\<close>

text \<open>The all-zero computation object.\<close>

definition zero_ctx :: SIPHASH_CTX where
  "zero_ctx = \<lparr>v0 = 0, v1 = 0, v2 = 0, v3 = 0, buf = [0, 0, 0, 0, 0, 0, 0, 0], bytes = 0\<rparr>"

text \<open>
  The absorption of a block \<open>m\<close> with \<open>n\<close> rounds on the computation object: what
  \<open>SipHash_CRounds\<close> does with its \<open>m\<close> when the loop runs \<open>n\<close> times.
\<close>

definition absorb :: "nat \<Rightarrow> u64 \<Rightarrow> SIPHASH_CTX \<Rightarrow> SIPHASH_CTX" where
  "absorb n m c =
    (let c1 = (SipRound ^^ n) (c\<lparr>v3 := v3 c XOR m\<rparr>) in c1\<lparr>v0 := v0 c1 XOR m\<rparr>)"

text \<open>
  The finalization on the state words when the word absorbed for the final block is
  \<open>m\<close>: \<open>m\<close> absorbed with \<open>rc\<close> rounds, \<open>v2 ^= 0xff\<close>, \<open>rf\<close> rounds, the fold.
\<close>

definition finish_spec :: "nat \<Rightarrow> nat \<Rightarrow> u64 \<Rightarrow> u64 \<times> u64 \<times> u64 \<times> u64 \<Rightarrow> u64" where
  "finish_spec rc rf m w =
    (case compress_spec rc m w of
       (a, b, c, d) \<Rightarrow>
         (case (SipRound_spec ^^ rf) (a, b, c XOR 0xff, d) of
            (a, b, c, d) \<Rightarrow> (a XOR b) XOR (c XOR d)))"

subsection \<open>Concrete targets and inputs\<close>

text \<open>
  The two builds on a little-endian 64-bit machine, and the key
  \<open>00 01 ... 0f\<close> of the test vectors of the SipHash paper.
\<close>

definition amd64_FreeBSD :: target where
  "amd64_FreeBSD = \<lparr>platform = FreeBSD, host = LittleEndian\<rparr>"

definition amd64_OpenBSD :: target where
  "amd64_OpenBSD = \<lparr>platform = OpenBSD, host = LittleEndian\<rparr>"

definition key_0f :: SIPHASH_KEY where
  "key_0f = \<lparr>k0 = [0, 1, 2, 3, 4, 5, 6, 7], k1 = [8, 9, 10, 11, 12, 13, 14, 15]\<rparr>"

section \<open>Properties\<close>

subsection \<open>The round count as a C \<open>int\<close>\<close>

lemma even_div_iff_less:
  fixes k p :: int
  assumes "0 \<le> k" "k < 2 * p"
  shows "even (k div p) \<longleftrightarrow> k < p"
proof (cases "k < p")
  case True
  then show ?thesis using assms by (simp add: div_pos_pos_trivial)
next
  case False
  have "k = p * 1 + (k - p)" by simp
  then have "k div p = 1"
    using False assms by (intro int_div_pos_eq [where r = "k - p"]) auto
  then show ?thesis using False by simp
qed

lemma sint_nonneg_uint: "0 \<le> sint (n :: c_int) \<longleftrightarrow> uint n < 2 ^ 31"
proof -
  have b: "uint n < 2 * 2 ^ 31" using uint_bounded [of n] by simp
  have c: "0 \<le> uint n" by simp
  have "0 \<le> sint n \<longleftrightarrow> \<not> bit (uint n) 31"
    by (simp add: sint_uint)
  also have "\<dots> \<longleftrightarrow> even (uint n div 2 ^ 31)"
    by (simp add: bit_iff_odd)
  also have "\<dots> \<longleftrightarrow> uint n < 2 ^ 31"
    using c b by (rule even_div_iff_less)
  finally show ?thesis .
qed

lemma sint_nonneg_iff: "0 \<le> sint (n :: c_int) \<longleftrightarrow> unat n < 2 ^ 31"
proof -
  have "0 \<le> sint n \<longleftrightarrow> int (unat n) < int (2 ^ 31)"
    by (simp only: sint_nonneg_uint uint_nat of_nat_power of_nat_numeral)
  also have "\<dots> \<longleftrightarrow> unat n < 2 ^ 31"
    by (rule of_nat_less_iff)
  finally show ?thesis .
qed

lemma nat_sint_nonneg: "0 \<le> sint (n :: c_int) \<Longrightarrow> nat (sint n) = unat n"
proof -
  assume "0 \<le> sint n"
  then have u: "uint n < 2 ^ 31" by (simp only: sint_nonneg_uint)
  have "- (2 ^ 31) \<le> uint n" by (rule order_trans [of _ 0]) simp_all
  then have "signed_take_bit 31 (uint n) = uint n"
    using u by (rule signed_take_bit_int_eq_self)
  then have "sint n = uint n" by (simp add: sint_uint)
  then show ?thesis by (simp only: unat_eq_nat_uint)
qed

lemma sint_neg_iff: "sint (n :: c_int) < 0 \<longleftrightarrow> 2 ^ 31 \<le> unat n"
proof -
  have "sint n < 0 \<longleftrightarrow> \<not> 0 \<le> sint n" by (rule not_le [symmetric])
  also have "\<dots> \<longleftrightarrow> \<not> unat n < 2 ^ 31" by (simp only: sint_nonneg_iff)
  also have "\<dots> \<longleftrightarrow> 2 ^ 31 \<le> unat n" by (rule not_less)
  finally show ?thesis .
qed

lemma unat_INT_MIN: "unat INT_MIN = 2 ^ 31"
  by (simp add: INT_MIN_def)

subsection \<open>\<open>SipHash_Rounds\<close>: the loop\<close>

lemma SipHash_Rounds_zero: "SipHash_Rounds ctx 0 = Inr ctx"
  by (simp add: SipHash_Rounds.simps INT_MIN_def)

lemma SipHash_Rounds_step:
  "rounds \<noteq> INT_MIN \<Longrightarrow> rounds \<noteq> 0 \<Longrightarrow>
   SipHash_Rounds ctx rounds = SipHash_Rounds (SipRound ctx) (rounds - 1)"
  by (subst SipHash_Rounds.simps) simp

lemma SipHash_Rounds_unat:
  "unat n < 2 ^ 31 \<Longrightarrow> SipHash_Rounds ctx n = Inr ((SipRound ^^ unat n) ctx)"
proof (induction "unat n" arbitrary: n ctx)
  case 0
  then have "n = 0" by (simp add: unat_eq_zero)
  then show ?case by (simp add: SipHash_Rounds_zero)
next
  case (Suc k)
  have nz: "n \<noteq> 0" using Suc.hyps(2) by auto
  have nm: "n \<noteq> INT_MIN" using Suc.prems unat_INT_MIN by auto
  have pred: "unat (n - 1) = k" using Suc.hyps(2) nz by (simp add: unat_minus_one)
  have "SipHash_Rounds ctx n = SipHash_Rounds (SipRound ctx) (n - 1)"
    using nm nz by (rule SipHash_Rounds_step)
  also have "\<dots> = Inr ((SipRound ^^ k) (SipRound ctx))"
    using Suc.hyps(1) [of "n - 1" "SipRound ctx"] pred Suc.prems Suc.hyps(2) by simp
  also have "\<dots> = Inr ((SipRound ^^ unat n) ctx)"
    using Suc.hyps(2) [symmetric] by (simp add: funpow_swap1)
  finally show ?case .
qed

lemma SipHash_Rounds_high:
  "2 ^ 31 \<le> unat n \<Longrightarrow> SipHash_Rounds ctx n = Inl SignedOverflow"
proof (induction "unat n - 2 ^ 31" arbitrary: n ctx)
  case 0
  then have "unat n = unat INT_MIN" by (simp add: unat_INT_MIN)
  then have "n = INT_MIN" by (simp only: word_unat_eq_iff)
  then show ?case by (simp add: SipHash_Rounds.simps)
next
  case (Suc k)
  have nz: "n \<noteq> 0" using Suc.prems by auto
  have nm: "n \<noteq> INT_MIN" using Suc.hyps(2) unat_INT_MIN by auto
  have pred: "unat (n - 1) = unat n - 1" using nz by (simp add: unat_minus_one)
  have "SipHash_Rounds ctx n = SipHash_Rounds (SipRound ctx) (n - 1)"
    using nm nz by (rule SipHash_Rounds_step)
  also have "\<dots> = Inl SignedOverflow"
    using Suc.hyps(1) [of "n - 1" "SipRound ctx"] pred Suc.hyps(2) by simp
  finally show ?case .
qed

lemma SipHash_Rounds_nonneg:
  "0 \<le> sint n \<Longrightarrow> SipHash_Rounds ctx n = Inr ((SipRound ^^ nat (sint n)) ctx)"
  by (simp only: nat_sint_nonneg) (simp only: sint_nonneg_iff SipHash_Rounds_unat)

lemma SipHash_Rounds_negative:
  "sint n < 0 \<Longrightarrow> SipHash_Rounds ctx n = Inl SignedOverflow"
  by (simp only: sint_neg_iff SipHash_Rounds_high)

subsection \<open>\<open>SIP_ROTL\<close> is the circular left rotation\<close>

lemma SIP_ROTL_word_rotl:
  assumes "0 < b" "b < 64"
  shows "SIP_ROTL x b = word_rotl b x"
proof (rule bit_word_eqI)
  fix n :: nat
  assume "n < LENGTH(64)"
  then have n: "n < 64" by simp
  have lhs: "bit (SIP_ROTL x b) n \<longleftrightarrow> (b \<le> n \<and> bit x (n - b)) \<or> bit x (64 - b + n)"
    using n by (simp add: SIP_ROTL_def bit_or_iff bit_push_bit_iff bit_drop_bit_eq)
  have rhs: "bit (word_rotl b x) n \<longleftrightarrow> bit x ((n + (64 - b)) mod 64)"
    using n assms by (simp add: bit_word_rotl_iff)
  show "bit (SIP_ROTL x b) n \<longleftrightarrow> bit (word_rotl b x) n"
  proof (cases "b \<le> n")
    case True
    have "n + (64 - b) = 64 + (n - b)" using True assms by arith
    moreover have "(64 + (n - b)) mod 64 = n - b" using n by simp
    ultimately have m: "(n + (64 - b)) mod 64 = n - b" by (simp only:)
    have "64 \<le> 64 - b + n" using True assms by arith
    then have "\<not> bit x (64 - b + n)"
      using bit_imp_le_length [of x "64 - b + n"] by auto
    then show ?thesis using True by (simp only: lhs rhs m) simp
  next
    case False
    then have m: "(n + (64 - b)) mod 64 = 64 - b + n" using n assms by simp
    show ?thesis using False by (simp only: lhs rhs m) simp
  qed
qed

lemma SipRound_words: "state_words (SipRound ctx) = SipRound_spec (state_words ctx)"
  by (simp add: SipRound_def SipRound_spec_def state_words_def Let_def SIP_ROTL_word_rotl)

lemma SipRound_buf_bytes: "buf (SipRound ctx) = buf ctx \<and> bytes (SipRound ctx) = bytes ctx"
  by (simp add: SipRound_def Let_def)

text \<open>
  C5. One pass through the body of the loop of \<open>SipHash_Rounds\<close> changes the four
  state words exactly as the fourteen steps of the specification say (additions modulo
  \<open>2^64\<close>, \<open>SIP_ROTL\<close> a circular left rotation) and leaves the staging buffer and the
  byte counter alone; called with a count \<open>n \<ge> 0\<close>, \<open>SipHash_Rounds\<close> returns the state
  after \<open>n\<close> such passes in sequence.
\<close>

theorem SipHash_Rounds_is_SipRound_iterated:
  "state_words (SipRound ctx) = SipRound_spec (state_words ctx)
   \<and> buf (SipRound ctx) = buf ctx \<and> bytes (SipRound ctx) = bytes ctx
   \<and> (0 \<le> sint n \<longrightarrow> SipHash_Rounds ctx n = Inr ((SipRound ^^ nat (sint n)) ctx))"
  by (simp add: SipRound_words SipRound_buf_bytes SipHash_Rounds_nonneg)

theorem SipHash_Rounds_is_SipRound_iterated_witness:
  "0 \<le> sint (2 :: c_int)
   \<and> SipHash_Rounds zero_ctx 2 = Inr ((SipRound ^^ nat (sint (2 :: c_int))) zero_ctx)
   \<and> state_words (SipRound zero_ctx) = (0, 0, 0, 0)"
proof -
  have h: "0 \<le> sint (2 :: c_int)" by simp
  have "state_words (SipRound zero_ctx) = (0, 0, 0, 0)"
    using SipHash_Rounds_is_SipRound_iterated [of zero_ctx 2]
    by (simp add: SipRound_spec_def state_words_def zero_ctx_def)
  then show ?thesis
    using h SipHash_Rounds_is_SipRound_iterated [of zero_ctx 2] by simp
qed

subsection \<open>Negative and zero round counts\<close>

lemma SipHash_CRounds_negative:
  "sint n < 0 \<Longrightarrow> SipHash_CRounds tgt p ctx n = Inl SignedOverflow"
  by (simp add: SipHash_CRounds_def Let_def SipHash_Rounds_negative)

lemma SipHash_CRounds_nonneg:
  "0 \<le> sint n \<Longrightarrow> \<exists>ctx'. SipHash_CRounds tgt p ctx n = Inr ctx'"
  by (simp add: SipHash_CRounds_def Let_def SipHash_Rounds_nonneg)

text \<open>
  C9, as the code has it. With a round count of zero \<open>SipHash_Rounds\<close> returns the
  state unchanged. With a negative count the loop \<open>while (rounds--)\<close> never meets
  zero on its way down: it reaches \<open>INT_MIN\<close>, where the decrement is a signed
  overflow, so \<open>SipHash_Rounds\<close> and \<open>SipHash_CRounds\<close> have no defined result.
\<close>

theorem SipHash_Rounds_zero_or_negative:
  "SipHash_Rounds ctx 0 = Inr ctx
   \<and> (sint n < 0 \<longrightarrow>
        SipHash_Rounds ctx n = Inl SignedOverflow
        \<and> SipHash_CRounds tgt p ctx n = Inl SignedOverflow)"
  by (simp add: SipHash_Rounds_zero SipHash_Rounds_negative SipHash_CRounds_negative)

theorem SipHash_Rounds_zero_or_negative_witness:
  "sint (- 3 :: c_int) < 0
   \<and> SipHash_Rounds (SipHash_Init amd64_FreeBSD 0x1000 key_0f) 0
       = Inr (SipHash_Init amd64_FreeBSD 0x1000 key_0f)
   \<and> SipHash_Rounds (SipHash_Init amd64_FreeBSD 0x1000 key_0f) (- 3) = Inl SignedOverflow
   \<and> SipHash_CRounds amd64_FreeBSD 0x2000 (SipHash_Init amd64_FreeBSD 0x1000 key_0f) (- 3)
       = Inl SignedOverflow"
proof -
  have h: "sint (- 3 :: c_int) < 0" by simp
  show ?thesis
    using h SipHash_Rounds_zero_or_negative
      [where ctx = "SipHash_Init amd64_FreeBSD 0x1000 key_0f" and n = "- 3"
         and tgt = amd64_FreeBSD and p = "0x2000"]
    by simp
qed

text \<open>
  The claim as the specification states it (a negative round count yields a defined
  result) fails at the count \<open>-1\<close>.
\<close>

theorem SipHash_Rounds_minus_one_overflows:
  "SipHash_Rounds zero_ctx (- 1) = Inl SignedOverflow"
  by (rule SipHash_Rounds_negative) simp

subsection \<open>\<open>SipHash_Update\<close> and the finalization round count\<close>

text \<open>
  C10. The state \<open>SipHash_Update\<close> leaves does not depend on its argument \<open>rf\<close>:
  with the same target, state, \<open>rc\<close> and input, any two values of \<open>rf\<close> give the
  same result.
\<close>

theorem SipHash_Update_ignores_rf:
  "SipHash_Update tgt ctx_p ctx rc rf1 src = SipHash_Update tgt ctx_p ctx rc rf2 src"
  by (simp add: SipHash_Update_def)

subsection \<open>The wipe of the computation object\<close>

lemma explicit_bzero_zero: "explicit_bzero ctx = zero_ctx"
  by (simp add: explicit_bzero_def zero_ctx_def sizeof_buf_def eval_nat_numeral)

lemma SipHash_End_Inr:
  "SipHash_End tgt p ctx rc rf = Inr (r, ctx') \<Longrightarrow> ctx' = zero_ctx"
  by (auto simp: SipHash_End_def Let_def explicit_bzero_zero split: sum.splits)

lemma SipHash_Final_Inr:
  "SipHash_Final tgt dst p ctx rc rf = Inr (d, ctx') \<Longrightarrow> ctx' = zero_ctx"
  by (auto simp: SipHash_Final_def Let_def split: sum.splits platform.splits
      dest: SipHash_End_Inr)

lemma SipHash_End_nonneg:
  assumes "0 \<le> sint rc" "0 \<le> sint rf"
  shows "\<exists>r. SipHash_End tgt p ctx rc rf = Inr (r, zero_ctx)"
proof -
  have "\<exists>r. (case SipHash_CRounds tgt p c rc of
          Inl e \<Rightarrow> Inl e
        | Inr c1 \<Rightarrow>
            (case SipHash_Rounds (c1\<lparr>v2 := v2 c1 XOR 0xff\<rparr>) rf of
               Inl e \<Rightarrow> Inl e
             | Inr c2 \<Rightarrow> Inr ((v0 c2 XOR v1 c2) XOR (v2 c2 XOR v3 c2), explicit_bzero c2)))
        = Inr (r, zero_ctx)" for c
  proof -
    obtain c1 where "SipHash_CRounds tgt p c rc = Inr c1"
      using SipHash_CRounds_nonneg [OF assms(1)] by blast
    then show ?thesis
      by (simp add: SipHash_Rounds_nonneg [OF assms(2)] explicit_bzero_zero)
  qed
  then show ?thesis unfolding SipHash_End_def Let_def by blast
qed

lemma SipHash_Final_nonneg:
  assumes "0 \<le> sint rc" "0 \<le> sint rf"
  shows "\<exists>d. SipHash_Final tgt dst p ctx rc rf = Inr (d, zero_ctx)"
proof -
  obtain r where "SipHash_End tgt p ctx rc rf = Inr (r, zero_ctx)"
    using SipHash_End_nonneg [OF assms] by blast
  then show ?thesis by (simp add: SipHash_Final_def Let_def split: platform.splits)
qed

text \<open>
  C7. Whenever \<open>SipHash_End\<close> returns, and so whenever \<open>SipHash_Final\<close> returns, the
  object it leaves is all zero: the four state words, the eight bytes of the staging
  buffer and the byte counter. With round counts that are not negative both do return.
\<close>

theorem SipHash_End_wipes_state:
  "(SipHash_End tgt p ctx rc rf = Inr (r, ctx') \<longrightarrow> ctx' = zero_ctx)
   \<and> (SipHash_Final tgt dst p ctx rc rf = Inr (d, ctx'') \<longrightarrow> ctx'' = zero_ctx)
   \<and> (0 \<le> sint rc \<and> 0 \<le> sint rf \<longrightarrow>
        (\<exists>r. SipHash_End tgt p ctx rc rf = Inr (r, zero_ctx))
        \<and> (\<exists>d. SipHash_Final tgt dst p ctx rc rf = Inr (d, zero_ctx)))"
  by (auto dest: SipHash_End_Inr SipHash_Final_Inr
      intro: SipHash_End_nonneg SipHash_Final_nonneg)

theorem SipHash_End_wipes_state_witness:
  "0 \<le> sint (2 :: c_int) \<and> 0 \<le> sint (4 :: c_int)
   \<and> SipHash_End amd64_OpenBSD 0x2000 (SipHash_Init amd64_OpenBSD 0x1000 key_0f) 2 4
       = Inr (0x726fdb47dd0e0e31, zero_ctx)
   \<and> SipHash_Final amd64_OpenBSD [1, 1, 1, 1, 1, 1, 1, 1] 0x2000
         (SipHash_Init amd64_OpenBSD 0x1000 key_0f) 2 4
       = Inr ([0x31, 0x0e, 0x0e, 0xdd, 0x47, 0xdb, 0x6f, 0x72], zero_ctx)"
proof -
  have h: "0 \<le> sint (2 :: c_int) \<and> 0 \<le> sint (4 :: c_int)" by simp
  have e: "SipHash_End amd64_OpenBSD 0x2000 (SipHash_Init amd64_OpenBSD 0x1000 key_0f) 2 4
      = Inr (0x726fdb47dd0e0e31, zero_ctx)"
    by code_simp
  have f: "SipHash_Final amd64_OpenBSD [1, 1, 1, 1, 1, 1, 1, 1] 0x2000
         (SipHash_Init amd64_OpenBSD 0x1000 key_0f) 2 4
      = Inr ([0x31, 0x0e, 0x0e, 0xdd, 0x47, 0xdb, 0x6f, 0x72], zero_ctx)"
    by code_simp
  show ?thesis
    using h e f SipHash_End_wipes_state
      [where tgt = amd64_OpenBSD and p = "0x2000"
         and ctx = "SipHash_Init amd64_OpenBSD 0x1000 key_0f" and rc = 2 and rf = 4
         and r = "0x726fdb47dd0e0e31" and ctx' = zero_ctx
         and dst = "[1, 1, 1, 1, 1, 1, 1, 1]"
         and d = "[0x31, 0x0e, 0x0e, 0xdd, 0x47, 0xdb, 0x6f, 0x72]" and ctx'' = zero_ctx]
    by simp
qed

subsection \<open>Absorbing a block\<close>

lemma state_words_funpow:
  "state_words ((SipRound ^^ n) c) = (SipRound_spec ^^ n) (state_words c)"
  by (induction n) (simp_all add: SipRound_words)

lemma funpow_buf_bytes:
  "buf ((SipRound ^^ n) c) = buf c \<and> bytes ((SipRound ^^ n) c) = bytes c"
  by (induction n) (simp_all add: SipRound_buf_bytes)

lemma state_words_absorb:
  "state_words (absorb n m c) = compress_spec n m (state_words c)"
proof -
  have "state_words ((SipRound ^^ n) (c\<lparr>v3 := v3 c XOR m\<rparr>))
      = (SipRound_spec ^^ n) (v0 c, v1 c, v2 c, v3 c XOR m)"
    by (simp add: state_words_funpow) (simp add: state_words_def)
  then show ?thesis
    by (auto simp: absorb_def Let_def compress_spec_def state_words_def split: prod.splits)
qed

lemma absorb_buf_bytes: "buf (absorb n m c) = buf c \<and> bytes (absorb n m c) = bytes c"
  by (simp add: absorb_def Let_def funpow_buf_bytes)

text \<open>
  Without \<open>__FreeBSD__\<close> the block absorbed is the content of the staging buffer,
  read little-endian. Under \<open>__FreeBSD__\<close> it is the converted address of the
  staging buffer, whatever the buffer holds.
\<close>

lemma SipHash_CRounds_OpenBSD:
  "platform tgt = OpenBSD \<Longrightarrow> 0 \<le> sint rc \<Longrightarrow>
   SipHash_CRounds tgt p c rc = Inr (absorb (nat (sint rc)) (lemtoh64 (buf c)) c)"
  by (simp add: SipHash_CRounds_def Let_def SipHash_Rounds_nonneg absorb_def)

lemma SipHash_CRounds_FreeBSD:
  "platform tgt = FreeBSD \<Longrightarrow> 0 \<le> sint rc \<Longrightarrow>
   SipHash_CRounds tgt p c rc
   = Inr (absorb (nat (sint rc)) (le64toh tgt (p + offsetof_buf)) c)"
  by (simp add: SipHash_CRounds_def Let_def SipHash_Rounds_nonneg absorb_def)

subsection \<open>\<open>SipHash_Init\<close>\<close>

lemma SipHash_Init_OpenBSD:
  "platform tgt = OpenBSD \<Longrightarrow>
   SipHash_Init tgt key_p key =
     \<lparr>v0 = 0x736f6d6570736575 XOR lemtoh64 (k0 key),
      v1 = 0x646f72616e646f6d XOR lemtoh64 (k1 key),
      v2 = 0x6c7967656e657261 XOR lemtoh64 (k0 key),
      v3 = 0x7465646279746573 XOR lemtoh64 (k1 key),
      buf = [0, 0, 0, 0, 0, 0, 0, 0], bytes = 0\<rparr>"
  by (simp add: SipHash_Init_def Let_def sizeof_buf_def eval_nat_numeral)

lemma SipHash_Init_FreeBSD:
  "platform tgt = FreeBSD \<Longrightarrow>
   SipHash_Init tgt key_p key =
     \<lparr>v0 = 0x736f6d6570736575 XOR le64toh tgt key_p,
      v1 = 0x646f72616e646f6d XOR le64toh tgt (key_p + 8),
      v2 = 0x6c7967656e657261 XOR le64toh tgt key_p,
      v3 = 0x7465646279746573 XOR le64toh tgt (key_p + 8),
      buf = [0, 0, 0, 0, 0, 0, 0, 0], bytes = 0\<rparr>"
  by (simp add: SipHash_Init_def Let_def sizeof_buf_def offsetof_k1_def eval_nat_numeral)

lemma SipHash_Init_FreeBSD_any_key:
  "platform tgt = FreeBSD \<Longrightarrow> SipHash_Init tgt key_p key = SipHash_Init tgt key_p key'"
  by (simp add: SipHash_Init_FreeBSD)

text \<open>
  C4. The claim: for a key given by its little-endian halves \<open>k0\<close> and \<open>k1\<close>,
  \<open>SipHash_Init\<close> leaves \<open>v0 = 0x736f6d6570736575 XOR k0\<close>,
  \<open>v1 = 0x646f72616e646f6d XOR k1\<close>, \<open>v2 = 0x6c7967656e657261 XOR k0\<close>,
  \<open>v3 = 0x7465646279746573 XOR k1\<close>, the staging buffer all zero and the byte counter
  zero, on every host. The build without \<open>__FreeBSD__\<close> does so
  (\<open>SipHash_Init_OpenBSD\<close>); the build with \<open>__FreeBSD__\<close> does not, and the
  theorem runs it where it departs: little-endian host, the key object at address
  \<open>0x1000\<close> holding the bytes \<open>00 01 ... 0f\<close>, so that
  \<open>k0 = 0x0706050403020100\<close> and \<open>k1 = 0x0f0e0d0c0b0a0908\<close>. \<open>SipHash_Init\<close>
  XORs the constants with the addresses \<open>0x1000\<close> and \<open>0x1008\<close> of the two halves,
  not with the halves.
\<close>

theorem SipHash_Init_FreeBSD_takes_addresses:
  "SipHash_Init amd64_FreeBSD 0x1000 key_0f =
     \<lparr>v0 = 0x736f6d6570736575 XOR 0x1000,
      v1 = 0x646f72616e646f6d XOR 0x1008,
      v2 = 0x6c7967656e657261 XOR 0x1000,
      v3 = 0x7465646279746573 XOR 0x1008,
      buf = [0, 0, 0, 0, 0, 0, 0, 0], bytes = 0\<rparr>
   \<and> lemtoh64 (k0 key_0f) = 0x0706050403020100
   \<and> lemtoh64 (k1 key_0f) = 0x0f0e0d0c0b0a0908"
proof -
  have a: "SipHash_Init amd64_FreeBSD 0x1000 key_0f =
     \<lparr>v0 = 0x736f6d6570736575 XOR 0x1000,
      v1 = 0x646f72616e646f6d XOR 0x1008,
      v2 = 0x6c7967656e657261 XOR 0x1000,
      v3 = 0x7465646279746573 XOR 0x1008,
      buf = [0, 0, 0, 0, 0, 0, 0, 0], bytes = 0\<rparr>"
    by code_simp
  have b: "lemtoh64 (k0 key_0f) = 0x0706050403020100"
    by code_simp
  have c: "lemtoh64 (k1 key_0f) = 0x0f0e0d0c0b0a0908"
    by code_simp
  from a b c show ?thesis by (intro conjI)
qed

subsection \<open>\<open>SipHash_Final\<close>\<close>

lemma SipHash_Final_OpenBSD:
  "platform tgt = OpenBSD \<Longrightarrow> SipHash_End tgt p ctx rc rf = Inr (r, ctx') \<Longrightarrow>
   SipHash_Final tgt dst p ctx rc rf = Inr (htolem64 r, ctx')"
  by (simp add: SipHash_Final_def)

lemma SipHash_Final_FreeBSD:
  "platform tgt = FreeBSD \<Longrightarrow> SipHash_End tgt p ctx rc rf = Inr (r, ctx') \<Longrightarrow>
   SipHash_Final tgt dst p ctx rc rf = Inr (dst, ctx')"
  by (simp add: SipHash_Final_def)

text \<open>
  C8. The claim: \<open>SipHash_Final\<close> stores the digest that \<open>SipHash_End\<close> computes
  through its destination pointer, in little-endian byte order on every host. The build
  without \<open>__FreeBSD__\<close> does so (\<open>SipHash_Final_OpenBSD\<close>); the build with
  \<open>__FreeBSD__\<close> stores nothing (\<open>SipHash_Final_FreeBSD\<close>), and the theorem runs it:
  the destination holds eight bytes \<open>0xaa\<close>, \<open>SipHash_End\<close> returns the digest
  \<open>0xf33dee297e48ca94\<close>, whose little-endian bytes are \<open>94 ca 48 7e 29 ee 3d f3\<close>,
  and \<open>SipHash_Final\<close> returns with the destination as it was.
\<close>

theorem SipHash_Final_FreeBSD_stores_nothing:
  "SipHash_End amd64_FreeBSD 0x2000 (SipHash_Init amd64_FreeBSD 0x1000 key_0f) 2 4
     = Inr (0xf33dee297e48ca94, zero_ctx)
   \<and> htolem64 0xf33dee297e48ca94 = [0x94, 0xca, 0x48, 0x7e, 0x29, 0xee, 0x3d, 0xf3]
   \<and> SipHash_Final amd64_FreeBSD [0xaa, 0xaa, 0xaa, 0xaa, 0xaa, 0xaa, 0xaa, 0xaa] 0x2000
         (SipHash_Init amd64_FreeBSD 0x1000 key_0f) 2 4
     = Inr ([0xaa, 0xaa, 0xaa, 0xaa, 0xaa, 0xaa, 0xaa, 0xaa], zero_ctx)"
proof -
  have a: "SipHash_End amd64_FreeBSD 0x2000 (SipHash_Init amd64_FreeBSD 0x1000 key_0f) 2 4
     = Inr (0xf33dee297e48ca94, zero_ctx)"
    by code_simp
  have b: "htolem64 0xf33dee297e48ca94 = [0x94, 0xca, 0x48, 0x7e, 0x29, 0xee, 0x3d, 0xf3]"
    by code_simp
  have c: "SipHash_Final amd64_FreeBSD [0xaa, 0xaa, 0xaa, 0xaa, 0xaa, 0xaa, 0xaa, 0xaa] 0x2000
         (SipHash_Init amd64_FreeBSD 0x1000 key_0f) 2 4
     = Inr ([0xaa, 0xaa, 0xaa, 0xaa, 0xaa, 0xaa, 0xaa, 0xaa], zero_ctx)"
    using a by (simp add: SipHash_Final_FreeBSD amd64_FreeBSD_def)
  from a b c show ?thesis by (intro conjI)
qed

subsection \<open>\<open>SipHash_End\<close>\<close>

lemma ucast_low_byte: "(ucast (w :: u64) :: u8) = of_nat (unat w mod 256)"
proof -
  have m: "unat w mod 256 = take_bit 8 (unat w)" by (simp add: take_bit_eq_mod)
  show ?thesis
    apply (simp only: m)
    apply (rule bit_word_eqI)
    apply (simp add: bit_simps)
    done
qed

lemma drop7: "length (b :: 'a list) = 8 \<Longrightarrow> drop 7 b = [b ! 7]"
  by (cases b rule: rev_cases) (auto simp: nth_append)

lemma update_last:
  "length xs + length ys = n \<Longrightarrow> (xs @ ys @ [y])[n := x] = xs @ ys @ [x]"
  by (auto simp: list_update_append)

lemma End_padding:
  assumes "length (b :: u8 list) = 8" "u < 8"
  shows "(memset_buf b u 0 (sizeof_buf - u - 1))[7 := x]
         = take u b @ replicate (7 - u) 0 @ [x]"
proof -
  have l: "length (take u b) + length (replicate (7 - u) (0 :: u8)) = 7" using assms by simp
  have "memset_buf b u 0 (sizeof_buf - u - 1)
      = take u b @ replicate (7 - u) 0 @ [b ! 7]"
    using assms by (simp add: memset_buf_def sizeof_buf_def drop7)
  then show ?thesis using update_last [OF l] by simp
qed

lemma End_block:
  assumes "length (buf ctx) = 8"
  shows "(memset_buf (buf ctx) (unat (bytes ctx) mod sizeof_buf) 0
            (sizeof_buf - unat (bytes ctx) mod sizeof_buf - 1))[7 := ucast (bytes ctx)]
         = final_block (buf ctx) (bytes ctx)"
proof -
  have "unat (bytes ctx) mod 8 < 8" by simp
  from End_padding [OF assms this] show ?thesis
    by (simp add: final_block_def ucast_low_byte sizeof_buf_def)
qed

text \<open>
  Without \<open>__FreeBSD__\<close>, \<open>SipHash_End\<close> is the finalization of the specification, on
  every object with an 8-byte staging buffer and for round counts that are not negative.
\<close>

lemma SipHash_End_OpenBSD:
  assumes "platform tgt = OpenBSD" "length (buf ctx) = 8" "0 \<le> sint rc" "0 \<le> sint rf"
  shows "SipHash_End tgt p ctx rc rf
         = Inr (SipHash_End_spec ctx (nat (sint rc)) (nat (sint rf)), zero_ctx)"
proof -
  define m where "m = lemtoh64 (final_block (buf ctx) (bytes ctx))"
  define c0 where "c0 = ctx\<lparr>buf := final_block (buf ctx) (bytes ctx)\<rparr>"
  define c1 where "c1 = absorb (nat (sint rc)) m c0"
  define c2 where "c2 = (SipRound ^^ nat (sint rf)) (c1\<lparr>v2 := v2 c1 XOR 0xff\<rparr>)"
  have cr: "SipHash_CRounds tgt p c0 rc = Inr c1"
    using SipHash_CRounds_OpenBSD [OF assms(1,3), of p c0] by (simp add: c1_def m_def c0_def)
  have rr: "SipHash_Rounds (c1\<lparr>v2 := v2 c1 XOR 0xff\<rparr>) rf = Inr c2"
    using SipHash_Rounds_nonneg [OF assms(4)] by (simp add: c2_def)
  have e: "SipHash_End tgt p ctx rc rf
      = Inr ((v0 c2 XOR v1 c2) XOR (v2 c2 XOR v3 c2), zero_ctx)"
    using End_block [OF assms(2)]
    by (simp add: SipHash_End_def Let_def cr [unfolded c0_def] rr explicit_bzero_zero)
  have w1: "state_words c1 = compress_spec (nat (sint rc)) m (state_words ctx)"
    by (simp add: c1_def state_words_absorb) (simp add: c0_def state_words_def)
  have w2: "state_words c2
      = (SipRound_spec ^^ nat (sint rf)) (v0 c1, v1 c1, v2 c1 XOR 0xff, v3 c1)"
    by (simp add: c2_def state_words_funpow) (simp add: state_words_def)
  have "SipHash_End_spec ctx (nat (sint rc)) (nat (sint rf))
      = (v0 c2 XOR v1 c2) XOR (v2 c2 XOR v3 c2)"
    using w1 w2 by (auto simp: SipHash_End_spec_def m_def state_words_def split: prod.splits)
  then show ?thesis using e by simp
qed

text \<open>
  C2. The claim: in every state that \<open>SipHash_Init\<close> and updates reach,
  \<open>SipHash_End\<close> zero-fills the staging buffer behind the last valid byte up to the
  last slot, writes the byte count modulo 256 into the last slot, absorbs that block
  with \<open>rc\<close> rounds, XORs \<open>0xff\<close> into \<open>v2\<close>, runs \<open>rf\<close> rounds and returns
  \<open>(v0 XOR v1) XOR (v2 XOR v3)\<close>. The build without \<open>__FreeBSD__\<close> does so on every
  object (\<open>SipHash_End_OpenBSD\<close>); the build with \<open>__FreeBSD__\<close> does not absorb the
  block, and the theorem runs it where it departs: the object lies at address
  \<open>0x2000\<close> (its staging buffer at \<open>0x2020\<close>) and is in the state that
  \<open>SipHash_Init\<close> and one \<open>SipHash_Update\<close> with the single byte \<open>01\<close> leave. The finalization of the specification absorbs the
  block \<open>01 00 00 00 00 00 00 01\<close> and gives \<open>0xee3ef58a12ff7b5e\<close>; \<open>SipHash_End\<close>
  builds that block in the staging buffer, absorbs the address \<open>0x2020\<close> in its place
  and returns \<open>0xf33dee297e48ca94\<close>.
\<close>

theorem SipHash_End_FreeBSD_absorbs_address:
  "SipHash_Update amd64_FreeBSD 0x2000 (SipHash_Init amd64_FreeBSD 0x1000 key_0f) 2 4 [1]
     = Inr \<lparr>v0 = 0x736f6d6570737575, v1 = 0x646f72616e647f65,
            v2 = 0x6c7967656e657261 XOR 0x1000, v3 = 0x7465646279746573 XOR 0x1008,
            buf = [1, 0, 0, 0, 0, 0, 0, 0], bytes = 1\<rparr>
   \<and> SipHash_End amd64_FreeBSD 0x2000
         \<lparr>v0 = 0x736f6d6570737575, v1 = 0x646f72616e647f65,
          v2 = 0x6c7967656e657261 XOR 0x1000, v3 = 0x7465646279746573 XOR 0x1008,
          buf = [1, 0, 0, 0, 0, 0, 0, 0], bytes = 1\<rparr> 2 4
     = Inr (0xf33dee297e48ca94, zero_ctx)
   \<and> final_block [1, 0, 0, 0, 0, 0, 0, 0] 1 = [1, 0, 0, 0, 0, 0, 0, 1]
   \<and> SipHash_End_spec
         \<lparr>v0 = 0x736f6d6570737575, v1 = 0x646f72616e647f65,
          v2 = 0x6c7967656e657261 XOR 0x1000, v3 = 0x7465646279746573 XOR 0x1008,
          buf = [1, 0, 0, 0, 0, 0, 0, 0], bytes = 1\<rparr> 2 4
     = 0xee3ef58a12ff7b5e"
proof -
  let ?S = "\<lparr>v0 = 0x736f6d6570737575, v1 = 0x646f72616e647f65,
          v2 = 0x6c7967656e657261 XOR 0x1000, v3 = 0x7465646279746573 XOR 0x1008,
          buf = [1, 0, 0, 0, 0, 0, 0, 0], bytes = 1\<rparr> :: SIPHASH_CTX"
  have a: "SipHash_Update amd64_FreeBSD 0x2000 (SipHash_Init amd64_FreeBSD 0x1000 key_0f)
      2 4 [1] = Inr ?S"
    by code_simp
  have b: "SipHash_End amd64_FreeBSD 0x2000 ?S 2 4 = Inr (0xf33dee297e48ca94, zero_ctx)"
    by code_simp
  have c: "final_block [1, 0, 0, 0, 0, 0, 0, 0] 1 = [1, 0, 0, 0, 0, 0, 0, 1]"
    by code_simp
  have o: "SipHash_End amd64_OpenBSD 0x2000 ?S 2 4 = Inr (0xee3ef58a12ff7b5e, zero_ctx)"
    by code_simp
  have "SipHash_End amd64_OpenBSD 0x2000 ?S 2 4
      = Inr (SipHash_End_spec ?S (nat (sint (2 :: c_int))) (nat (sint (4 :: c_int))), zero_ctx)"
    by (rule SipHash_End_OpenBSD) (simp_all add: amd64_OpenBSD_def)
  then have d: "SipHash_End_spec ?S 2 4 = 0xee3ef58a12ff7b5e"
    using o by simp
  from a b c d show ?thesis by (intro conjI)
qed


subsection \<open>\<open>SipHash_Update\<close>: the loop and the three paths\<close>

lemma SipHash_Rounds_Inr_buf_bytes:
  "SipHash_Rounds c n = Inr c' \<Longrightarrow> buf c' = buf c \<and> bytes c' = bytes c"
proof (cases "0 \<le> sint n")
  case True
  assume "SipHash_Rounds c n = Inr c'"
  then show ?thesis using SipHash_Rounds_nonneg [OF True, of c] by (auto simp: funpow_buf_bytes)
next
  case False
  assume "SipHash_Rounds c n = Inr c'"
  then show ?thesis using SipHash_Rounds_negative [of n c] False by simp
qed

lemma memcpy_buf_whole:
  "length b = 8 \<Longrightarrow> 8 \<le> length ptr \<Longrightarrow> memcpy_buf b 0 ptr 8 = Inr (take 8 ptr)"
  by (simp add: memcpy_buf_def sizeof_buf_def)

lemma lemtoh64_take8: "lemtoh64 (take 8 bs) = lemtoh64 bs"
  by (simp add: lemtoh64_def)

lemma Update_loop_short:
  "length ptr < 8 \<Longrightarrow> Update_loop tgt p c rc ptr = Inr (c, ptr)"
  by (subst Update_loop.simps) (simp add: sizeof_buf_def)

lemma Update_loop_OpenBSD:
  assumes "platform tgt = OpenBSD" "0 \<le> sint rc"
  shows "length (buf c) = 8 \<Longrightarrow>
    \<exists>c'. Update_loop tgt p c rc ptr = Inr (c', drop (length ptr - length ptr mod 8) ptr)
       \<and> state_words c' = blocks_spec (nat (sint rc)) ptr (state_words c)
       \<and> bytes c' = bytes c \<and> length (buf c') = 8"
proof (induction "length ptr" arbitrary: ptr c rule: less_induct)
  case less
  show ?case
  proof (cases "length ptr < 8")
    case True
    then show ?thesis using less.prems
      by (simp add: Update_loop_short blocks_spec.simps [of _ ptr])
  next
    case False
    then have ge: "8 \<le> length ptr" by simp
    define c1 where "c1 = absorb (nat (sint rc)) (lemtoh64 (take 8 ptr)) (c\<lparr>buf := take 8 ptr\<rparr>)"
    have cr: "SipHash_CRounds tgt p (c\<lparr>buf := take 8 ptr\<rparr>) rc = Inr c1"
      using SipHash_CRounds_OpenBSD [OF assms, of p "c\<lparr>buf := take 8 ptr\<rparr>"]
      by (simp add: c1_def)
    have l1: "length (buf c1) = 8" using ge by (simp add: c1_def absorb_buf_bytes)
    have b1: "bytes c1 = bytes c" by (simp add: c1_def absorb_buf_bytes)
    have w1: "state_words c1 = compress_spec (nat (sint rc)) (lemtoh64 (take 8 ptr)) (state_words c)"
      by (simp add: c1_def state_words_absorb) (simp add: state_words_def)
    have step: "Update_loop tgt p c rc ptr = Update_loop tgt p c1 rc (drop 8 ptr)"
      using ge less.prems
      by (subst Update_loop.simps) (simp add: memcpy_buf_whole cr sizeof_buf_def)
    have "length (drop 8 ptr) < length ptr" using ge by simp
    from less.hyps [OF this l1] obtain c' where
      r: "Update_loop tgt p c1 rc (drop 8 ptr)
            = Inr (c', drop (length (drop 8 ptr) - length (drop 8 ptr) mod 8) (drop 8 ptr))"
      and w: "state_words c' = blocks_spec (nat (sint rc)) (drop 8 ptr) (state_words c1)"
      and b: "bytes c' = bytes c1" and l: "length (buf c') = 8"
      by blast
    have m: "(length ptr - 8) mod 8 = length ptr mod 8"
      using ge by (simp add: le_mod_geq)
    have "length ptr mod 8 \<le> length ptr - 8"
      using ge m by (metis mod_less_eq_dividend)
    then have d: "drop (length (drop 8 ptr) - length (drop 8 ptr) mod 8) (drop 8 ptr)
        = drop (length ptr - length ptr mod 8) ptr"
      using ge m by simp
    have "blocks_spec (nat (sint rc)) ptr (state_words c)
        = blocks_spec (nat (sint rc)) (drop 8 ptr) (state_words c1)"
      using ge by (subst blocks_spec.simps) (simp add: w1)
    then show ?thesis using step r w b l b1 d by simp
  qed
qed


lemma length_trailing: "length (trailing s) = length s mod 8"
  by (simp add: trailing_def)

lemma Update_rest_OpenBSD:
  assumes "platform tgt = OpenBSD" "0 \<le> sint rc" "length (buf c) = 8"
    and fits: "used + length ptr mod 8 \<le> 8"
  shows "\<exists>c'. Update_rest tgt p c rc used ptr = Inr c'
       \<and> state_words c' = blocks_spec (nat (sint rc)) ptr (state_words c)
       \<and> bytes c' = bytes c \<and> length (buf c') = 8
       \<and> (used = 0 \<longrightarrow> take (length ptr mod 8) (buf c') = trailing ptr)"
proof -
  obtain c1 where
    r: "Update_loop tgt p c rc ptr = Inr (c1, trailing ptr)"
    and w: "state_words c1 = blocks_spec (nat (sint rc)) ptr (state_words c)"
    and b: "bytes c1 = bytes c" and l: "length (buf c1) = 8"
    using Update_loop_OpenBSD [OF assms(1,2,3), of p ptr] by (auto simp: trailing_def)
  show ?thesis
  proof (cases "trailing ptr = []")
    case True
    then have "length ptr mod 8 = 0" using length_trailing [of ptr] by simp
    then show ?thesis using True r w b l by (simp add: Update_rest_def)
  next
    case False
    let ?t = "trailing ptr"
    have lt: "length ?t = length ptr mod 8" by (rule length_trailing)
    have m: "memcpy_buf (buf c1) used ?t (length ?t)
        = Inr (take used (buf c1) @ ?t @ drop (used + length ?t) (buf c1))"
      using fits lt by (simp add: memcpy_buf_def sizeof_buf_def)
    have u: "Update_rest tgt p c rc used ptr
        = Inr (c1\<lparr>buf := take used (buf c1) @ ?t @ drop (used + length ?t) (buf c1)\<rparr>)"
      using False r m by (simp add: Update_rest_def)
    have len: "length (take used (buf c1) @ ?t @ drop (used + length ?t) (buf c1)) = 8"
      using fits lt l by simp
    show ?thesis using u w b len lt
      by (simp add: state_words_def)
  qed
qed

lemma SipHash_Update_empty: "SipHash_Update tgt p ctx rc rf [] = Inr ctx"
  by (simp add: SipHash_Update_def)

lemma SipHash_Update_aligned_OpenBSD:
  assumes "platform tgt = OpenBSD" "0 \<le> sint rc" "length (buf ctx) = 8"
    and "unat (bytes ctx) mod 8 = 0" "src \<noteq> []"
  shows "\<exists>c'. SipHash_Update tgt p ctx rc rf src = Inr c'
       \<and> state_words c' = blocks_spec (nat (sint rc)) src (state_words ctx)
       \<and> bytes c' = bytes ctx + of_nat (length src) \<and> length (buf c') = 8
       \<and> take (length src mod 8) (buf c') = trailing src"
proof -
  let ?c = "ctx\<lparr>bytes := bytes ctx + of_nat (length src)\<rparr>"
  have u: "SipHash_Update tgt p ctx rc rf src = Update_rest tgt p ?c rc 0 src"
    using assms(4,5) by (simp add: SipHash_Update_def Let_def sizeof_buf_def)
  have "length (buf ?c) = 8" using assms(3) by simp
  from Update_rest_OpenBSD [OF assms(1,2) this, of 0 src p]
  show ?thesis using u by (auto simp: state_words_def)
qed

lemma SipHash_Update_append:
  assumes "length (buf ctx) = 8" "0 < unat (bytes ctx) mod 8" "src \<noteq> []"
    and "length src < 8 - unat (bytes ctx) mod 8"
  shows "SipHash_Update tgt p ctx rc rf src
       = Inr (ctx\<lparr>bytes := bytes ctx + of_nat (length src),
                  buf := take (unat (bytes ctx) mod 8) (buf ctx) @ src
                         @ drop (unat (bytes ctx) mod 8 + length src) (buf ctx)\<rparr>)"
  using assms by (simp add: SipHash_Update_def Let_def sizeof_buf_def memcpy_buf_def)

lemma SipHash_Update_topup_OpenBSD:
  assumes "platform tgt = OpenBSD" "0 \<le> sint rc" "length (buf ctx) = 8"
    and used: "0 < unat (bytes ctx) mod 8"
    and enough: "8 - unat (bytes ctx) mod 8 \<le> length src"
    and fits: "unat (bytes ctx) mod 8 + (length src - (8 - unat (bytes ctx) mod 8)) mod 8 \<le> 8"
  shows "\<exists>c'. SipHash_Update tgt p ctx rc rf src = Inr c'
       \<and> state_words c' = blocks_spec (nat (sint rc)) (staged ctx @ src) (state_words ctx)
       \<and> bytes c' = bytes ctx + of_nat (length src) \<and> length (buf c') = 8"
proof -
  let ?u = "unat (bytes ctx) mod 8"
  let ?f = "8 - ?u"
  let ?k = "nat (sint rc)"
  let ?b = "take ?u (buf ctx) @ take ?f src"
  let ?c = "ctx\<lparr>bytes := bytes ctx + of_nat (length src), buf := ?b\<rparr>"
  have u8: "?u < 8" by simp
  have ne: "src \<noteq> []" using enough u8 by auto
  have lb: "length ?b = 8" using assms(3) enough u8 by simp
  have m: "memcpy_buf (buf ctx) ?u src ?f = Inr ?b"
    using assms(3) u8 by (simp add: memcpy_buf_def sizeof_buf_def)
  define c1 where "c1 = absorb ?k (lemtoh64 ?b) ?c"
  have cr: "SipHash_CRounds tgt p ?c rc = Inr c1"
    using SipHash_CRounds_OpenBSD [OF assms(1,2), of p ?c] by (simp add: c1_def)
  have l1: "length (buf c1) = 8" using lb by (simp add: c1_def absorb_buf_bytes)
  have b1: "bytes c1 = bytes ctx + of_nat (length src)" by (simp add: c1_def absorb_buf_bytes)
  have w1: "state_words c1 = compress_spec ?k (lemtoh64 ?b) (state_words ctx)"
    by (simp add: c1_def state_words_absorb) (simp add: state_words_def)
  have u: "SipHash_Update tgt p ctx rc rf src = Update_rest tgt p c1 rc ?u (drop ?f src)"
    using used enough ne m cr
    by (simp add: SipHash_Update_def Let_def sizeof_buf_def)
  have fits': "?u + length (drop ?f src) mod 8 \<le> 8" using fits by simp
  from Update_rest_OpenBSD [OF assms(1,2) l1 fits', of p] obtain c' where
    r: "Update_rest tgt p c1 rc ?u (drop ?f src) = Inr c'"
    and w: "state_words c' = blocks_spec ?k (drop ?f src) (state_words c1)"
    and b: "bytes c' = bytes c1" and l: "length (buf c') = 8"
    by blast
  have t8: "take 8 (staged ctx @ src) = ?b" and d8: "drop 8 (staged ctx @ src) = drop ?f src"
    using assms(3) u8 by (simp_all add: staged_def)
  have "8 \<le> length (staged ctx @ src)" using assms(3) enough u8 by (simp add: staged_def)
  then have "blocks_spec ?k (staged ctx @ src) (state_words ctx)
      = blocks_spec ?k (drop ?f src) (state_words c1)"
    by (subst blocks_spec.simps) (simp only: t8 d8 w1 if_True lemtoh64_take8)
  then show ?thesis using u r w b l b1 by simp
qed


text \<open>
  C3, as the code has it, in the build without \<open>__FreeBSD__\<close> (where \<open>m\<close> is the
  block read little-endian) and for a round count \<open>rc\<close> that is not negative. A call
  with no bytes is a no-op. Otherwise the byte counter grows by the length of the input,
  and
  \<^item> if the staging buffer is empty, every complete 8-byte block of the input is absorbed
    in order and the leftover tail of fewer than 8 bytes is copied to the beginning of
    the staging buffer and left unabsorbed;
  \<^item> if the staging buffer holds \<open>used\<close> bytes and the input has fewer than \<open>8 - used\<close>
    bytes, the input is appended to the staging buffer at offset \<open>used\<close> and nothing is
    absorbed;
  \<^item> if the staging buffer holds \<open>used\<close> bytes and the input has at least \<open>8 - used\<close>
    bytes, the buffer is topped up to a full block from the input prefix, that block is
    absorbed, and every remaining complete 8-byte block is absorbed the same way. This
    is stated where the leftover tail, if there is one, still fits into the buffer
    behind offset \<open>used\<close>; where that tail is put is not part of the statement.
\<close>

theorem SipHash_Update_by_cases:
  assumes "platform tgt = OpenBSD" "0 \<le> sint rc" "length (buf ctx) = 8"
  shows "SipHash_Update tgt p ctx rc rf [] = Inr ctx
    \<and> (src \<noteq> [] \<and> unat (bytes ctx) mod 8 = 0 \<longrightarrow>
         (\<exists>c'. SipHash_Update tgt p ctx rc rf src = Inr c'
            \<and> state_words c' = blocks_spec (nat (sint rc)) src (state_words ctx)
            \<and> bytes c' = bytes ctx + of_nat (length src) \<and> length (buf c') = 8
            \<and> take (length src mod 8) (buf c') = trailing src))
    \<and> (src \<noteq> [] \<and> 0 < unat (bytes ctx) mod 8
          \<and> length src < 8 - unat (bytes ctx) mod 8 \<longrightarrow>
         SipHash_Update tgt p ctx rc rf src
         = Inr (ctx\<lparr>bytes := bytes ctx + of_nat (length src),
                    buf := take (unat (bytes ctx) mod 8) (buf ctx) @ src
                           @ drop (unat (bytes ctx) mod 8 + length src) (buf ctx)\<rparr>))
    \<and> (0 < unat (bytes ctx) mod 8 \<and> 8 - unat (bytes ctx) mod 8 \<le> length src
          \<and> unat (bytes ctx) mod 8 + (length src - (8 - unat (bytes ctx) mod 8)) mod 8 \<le> 8
          \<longrightarrow>
         (\<exists>c'. SipHash_Update tgt p ctx rc rf src = Inr c'
            \<and> state_words c' = blocks_spec (nat (sint rc)) (staged ctx @ src) (state_words ctx)
            \<and> bytes c' = bytes ctx + of_nat (length src) \<and> length (buf c') = 8))"
proof (intro conjI impI)
  show "SipHash_Update tgt p ctx rc rf [] = Inr ctx" by (rule SipHash_Update_empty)
next
  assume "src \<noteq> [] \<and> unat (bytes ctx) mod 8 = 0"
  then show "\<exists>c'. SipHash_Update tgt p ctx rc rf src = Inr c'
            \<and> state_words c' = blocks_spec (nat (sint rc)) src (state_words ctx)
            \<and> bytes c' = bytes ctx + of_nat (length src) \<and> length (buf c') = 8
            \<and> take (length src mod 8) (buf c') = trailing src"
    by (intro SipHash_Update_aligned_OpenBSD [OF assms]) simp_all
next
  assume "src \<noteq> [] \<and> 0 < unat (bytes ctx) mod 8
          \<and> length src < 8 - unat (bytes ctx) mod 8"
  then show "SipHash_Update tgt p ctx rc rf src
         = Inr (ctx\<lparr>bytes := bytes ctx + of_nat (length src),
                    buf := take (unat (bytes ctx) mod 8) (buf ctx) @ src
                           @ drop (unat (bytes ctx) mod 8 + length src) (buf ctx)\<rparr>)"
    by (intro SipHash_Update_append [OF assms(3)]) simp_all
next
  assume "0 < unat (bytes ctx) mod 8 \<and> 8 - unat (bytes ctx) mod 8 \<le> length src
          \<and> unat (bytes ctx) mod 8 + (length src - (8 - unat (bytes ctx) mod 8)) mod 8 \<le> 8"
  then show "\<exists>c'. SipHash_Update tgt p ctx rc rf src = Inr c'
            \<and> state_words c' = blocks_spec (nat (sint rc)) (staged ctx @ src) (state_words ctx)
            \<and> bytes c' = bytes ctx + of_nat (length src) \<and> length (buf c') = 8"
    by (intro SipHash_Update_topup_OpenBSD [OF assms]) simp_all
qed

theorem SipHash_Update_by_cases_witness:
  "SipHash_Update amd64_OpenBSD 0x2000 zero_ctx 2 4 [] = Inr zero_ctx
   \<and> (\<exists>c'. SipHash_Update amd64_OpenBSD 0x2000 zero_ctx 2 4 [1, 2, 3, 4, 5, 6, 7, 8, 9] = Inr c'
         \<and> state_words c' = blocks_spec 2 [1, 2, 3, 4, 5, 6, 7, 8, 9] (0, 0, 0, 0)
         \<and> bytes c' = 9 \<and> length (buf c') = 8 \<and> take 1 (buf c') = [9])
   \<and> SipHash_Update amd64_OpenBSD 0x2000
        \<lparr>v0 = 0x74696a6473716475, v1 = 0x6b617f6d656f6665,
      v2 = 0x6b7f62616d677361, v3 = 0x7b6b696e727e6b7b,
      buf = [1, 0, 0, 0, 0, 0, 0, 0], bytes = 1\<rparr>
        2 4 [2]
      = Inr \<lparr>v0 = 0x74696a6473716475, v1 = 0x6b617f6d656f6665,
      v2 = 0x6b7f62616d677361, v3 = 0x7b6b696e727e6b7b,
      buf = [1, 2, 0, 0, 0, 0, 0, 0], bytes = 2\<rparr>
   \<and> (\<exists>c'. SipHash_Update amd64_OpenBSD 0x2000
          \<lparr>v0 = 0x74696a6473716475, v1 = 0x6b617f6d656f6665,
      v2 = 0x6b7f62616d677361, v3 = 0x7b6b696e727e6b7b,
      buf = [1, 0, 0, 0, 0, 0, 0, 0], bytes = 1\<rparr>
          2 4 [2, 3, 4, 5, 6, 7, 8] = Inr c'
         \<and> state_words c'
            = blocks_spec 2 [1, 2, 3, 4, 5, 6, 7, 8]
                (0x74696a6473716475, 0x6b617f6d656f6665, 0x6b7f62616d677361, 0x7b6b696e727e6b7b)
         \<and> bytes c' = 8 \<and> length (buf c') = 8)"
proof -
  let ?S1 = "\<lparr>v0 = 0x74696a6473716475, v1 = 0x6b617f6d656f6665,
      v2 = 0x6b7f62616d677361, v3 = 0x7b6b696e727e6b7b,
      buf = [1, 0, 0, 0, 0, 0, 0, 0], bytes = 1\<rparr> :: SIPHASH_CTX"
  have t: "platform amd64_OpenBSD = OpenBSD" by (simp add: amd64_OpenBSD_def)
  have r: "0 \<le> sint (2 :: c_int)" by simp
  have z: "length (buf zero_ctx) = 8" by (simp add: zero_ctx_def)
  have s: "length (buf ?S1) = 8" by simp
  have tr: "trailing [1, 2, 3, 4, 5, 6, 7, 8, 9 :: u8] = [9]" by (simp add: trailing_def)
  have st: "staged ?S1 = [1]" by (simp add: staged_def)
  note a = SipHash_Update_by_cases [OF t r z, where p = "0x2000" and rf = 4
      and src = "[1, 2, 3, 4, 5, 6, 7, 8, 9]"]
  note b = SipHash_Update_by_cases [OF t r s, where p = "0x2000" and rf = 4 and src = "[2]"]
  note c = SipHash_Update_by_cases [OF t r s, where p = "0x2000" and rf = 4
      and src = "[2, 3, 4, 5, 6, 7, 8]"]
  have 1: "SipHash_Update amd64_OpenBSD 0x2000 zero_ctx 2 4 [] = Inr zero_ctx"
    using a by blast
  have 2: "\<exists>c'. SipHash_Update amd64_OpenBSD 0x2000 zero_ctx 2 4 [1, 2, 3, 4, 5, 6, 7, 8, 9] = Inr c'
         \<and> state_words c' = blocks_spec 2 [1, 2, 3, 4, 5, 6, 7, 8, 9] (0, 0, 0, 0)
         \<and> bytes c' = 9 \<and> length (buf c') = 8 \<and> take 1 (buf c') = [9]"
    using a tr by (simp add: zero_ctx_def state_words_def)
  have 3: "SipHash_Update amd64_OpenBSD 0x2000 ?S1 2 4 [2]
      = Inr \<lparr>v0 = 0x74696a6473716475, v1 = 0x6b617f6d656f6665,
      v2 = 0x6b7f62616d677361, v3 = 0x7b6b696e727e6b7b,
      buf = [1, 2, 0, 0, 0, 0, 0, 0], bytes = 2\<rparr>"
    using b by simp
  have 4: "\<exists>c'. SipHash_Update amd64_OpenBSD 0x2000 ?S1 2 4 [2, 3, 4, 5, 6, 7, 8] = Inr c'
         \<and> state_words c'
            = blocks_spec 2 [1, 2, 3, 4, 5, 6, 7, 8]
                (0x74696a6473716475, 0x6b617f6d656f6665, 0x6b7f62616d677361, 0x7b6b696e727e6b7b)
         \<and> bytes c' = 8 \<and> length (buf c') = 8"
    using c st by (simp add: state_words_def)
  from 1 2 3 4 show ?thesis by (intro conjI)
qed

text \<open>
  The claim as the specification states it fails where the staging buffer holds a byte
  and the input is one byte: the buffer is not topped up to a full block, nothing is
  absorbed (the state words stay), and the input byte goes to \<open>buf[1]\<close>, not to the
  beginning of the staging buffer.
\<close>

theorem SipHash_Update_short_input_is_appended:
  "SipHash_Update amd64_OpenBSD 0x2000
     \<lparr>v0 = 0x74696a6473716475, v1 = 0x6b617f6d656f6665,
      v2 = 0x6b7f62616d677361, v3 = 0x7b6b696e727e6b7b,
      buf = [1, 0, 0, 0, 0, 0, 0, 0], bytes = 1\<rparr>
     2 4 [2]
   = Inr \<lparr>v0 = 0x74696a6473716475, v1 = 0x6b617f6d656f6665,
      v2 = 0x6b7f62616d677361, v3 = 0x7b6b696e727e6b7b,
      buf = [1, 2, 0, 0, 0, 0, 0, 0], bytes = 2\<rparr>"
  by code_simp

subsection \<open>\<open>SipHash_Update\<close>: where the tail goes after a top-up\<close>

text \<open>
  In either build and for a round count that is not negative, the loop of lines 117-122
  returns with the trailing bytes of its input left over. After a top-up the copy of
  line 125 still starts at the old offset \<open>used\<close>: when the tail does not fit behind
  it, the copy runs past the end of \<open>buf\<close>.
\<close>

lemma SipHash_CRounds_Inr_buf_bytes:
  "SipHash_CRounds tgt p c rc = Inr c' \<Longrightarrow> buf c' = buf c \<and> bytes c' = bytes c"
  by (auto simp: SipHash_CRounds_def Let_def split: sum.splits
      dest!: SipHash_Rounds_Inr_buf_bytes)

lemma Update_loop_shape:
  assumes "0 \<le> sint rc"
  shows "length (buf c) = 8 \<Longrightarrow>
    \<exists>c'. Update_loop tgt p c rc ptr = Inr (c', trailing ptr)
       \<and> bytes c' = bytes c \<and> length (buf c') = 8"
proof (induction "length ptr" arbitrary: ptr c rule: less_induct)
  case less
  show ?case
  proof (cases "length ptr < 8")
    case True
    then show ?thesis using less.prems by (simp add: Update_loop_short trailing_def)
  next
    case False
    then have ge: "8 \<le> length ptr" by simp
    obtain c1 where cr: "SipHash_CRounds tgt p (c\<lparr>buf := take 8 ptr\<rparr>) rc = Inr c1"
      using SipHash_CRounds_nonneg [OF assms] by blast
    have l1: "length (buf c1) = 8" and b1: "bytes c1 = bytes c"
      using SipHash_CRounds_Inr_buf_bytes [OF cr] ge by simp_all
    have step: "Update_loop tgt p c rc ptr = Update_loop tgt p c1 rc (drop 8 ptr)"
      using ge less.prems
      by (subst Update_loop.simps) (simp add: memcpy_buf_whole cr sizeof_buf_def)
    have "length (drop 8 ptr) < length ptr" using ge by simp
    from less.hyps [OF this l1] obtain c' where
      r: "Update_loop tgt p c1 rc (drop 8 ptr) = Inr (c', trailing (drop 8 ptr))"
      and b: "bytes c' = bytes c1" and l: "length (buf c') = 8"
      by blast
    have m: "(length ptr - 8) mod 8 = length ptr mod 8"
      using ge by (simp add: le_mod_geq)
    have "length ptr mod 8 \<le> length ptr - 8"
      using ge m by (metis mod_less_eq_dividend)
    then have d: "trailing (drop 8 ptr) = trailing ptr"
      using ge m by (simp add: trailing_def)
    show ?thesis using step r b l b1 d by simp
  qed
qed

lemma SipHash_Update_overflow:
  assumes "0 \<le> sint rc" "length (buf ctx) = 8"
    and used: "0 < unat (bytes ctx) mod 8"
    and enough: "8 - unat (bytes ctx) mod 8 \<le> length src"
    and over: "8 < unat (bytes ctx) mod 8 + (length src - (8 - unat (bytes ctx) mod 8)) mod 8"
  shows "SipHash_Update tgt p ctx rc rf src = Inl BufferOverflow"
proof -
  let ?u = "unat (bytes ctx) mod 8"
  let ?f = "8 - ?u"
  let ?b = "take ?u (buf ctx) @ take ?f src"
  let ?c = "ctx\<lparr>bytes := bytes ctx + of_nat (length src), buf := ?b\<rparr>"
  have u8: "?u < 8" by simp
  have ne: "src \<noteq> []" using enough u8 by auto
  have lb: "length ?b = 8" using assms(2) enough u8 by simp
  have m: "memcpy_buf (buf ctx) ?u src ?f = Inr ?b"
    using assms(2) u8 by (simp add: memcpy_buf_def sizeof_buf_def)
  obtain c1 where cr: "SipHash_CRounds tgt p ?c rc = Inr c1"
    using SipHash_CRounds_nonneg [OF assms(1)] by blast
  have l1: "length (buf c1) = 8"
    using SipHash_CRounds_Inr_buf_bytes [OF cr] lb by simp
  have u: "SipHash_Update tgt p ctx rc rf src = Update_rest tgt p c1 rc ?u (drop ?f src)"
    using used enough ne m cr
    by (simp add: SipHash_Update_def Let_def sizeof_buf_def)
  obtain c2 where
    r: "Update_loop tgt p c1 rc (drop ?f src) = Inr (c2, trailing (drop ?f src))"
    using Update_loop_shape [OF assms(1) l1] by blast
  have lt: "length (trailing (drop ?f src)) = (length src - ?f) mod 8"
    by (simp add: length_trailing)
  then have "trailing (drop ?f src) \<noteq> []" using over u8 by auto
  moreover have "memcpy_buf (buf c2) ?u (trailing (drop ?f src))
      (length (trailing (drop ?f src))) = Inl BufferOverflow"
    using over lt by (simp add: memcpy_buf_def sizeof_buf_def)
  ultimately show ?thesis using u r by (simp add: Update_rest_def)
qed

text \<open>
  Two runs without \<open>__FreeBSD__\<close>. The object is in the state \<open>SipHash_Init\<close> (key
  \<open>00 .. 0f\<close>) and an update with the byte \<open>01\<close> leave; the call passes the 8 bytes
  \<open>00 00 00 00 00 00 00 02\<close>. Seven of them top the staging buffer up, the block is
  absorbed, and the tail \<open>02\<close> is copied to \<open>buf[1]\<close>, behind the stale byte \<open>01\<close>,
  not to the beginning of the staging buffer; one update with all nine bytes leaves the
  same state words and \<open>02\<close> at \<open>buf[0]\<close>. With seven bytes staged and 8 bytes
  passed, one byte tops the buffer up and the tail of seven bytes is copied to
  \<open>buf[7]\<close>: six of them past the end of \<open>buf\<close>.
\<close>

lemma SipHash_Update_tail_behind_stale_bytes:
  "SipHash_Update amd64_OpenBSD 0x2000
     \<lparr>v0 = 0x7469686173716475, v1 = 0x6b617f6d656e6665,
      v2 = 0x6b7f62616d677361, v3 = 0x7b6b696e727e6c7b,
      buf = [1, 0, 0, 0, 0, 0, 0, 0], bytes = 1\<rparr>
     2 4 [0, 0, 0, 0, 0, 0, 0, 2]
   = Inr \<lparr>v0 = 0x75336ed04a9d8de8, v1 = 0x84235358f5c2b36,
      v2 = 0x379270828026833c, v3 = 0x3b67624903a92b6e,
      buf = [1, 2, 0, 0, 0, 0, 0, 0], bytes = 9\<rparr>
   \<and> SipHash_Update amd64_OpenBSD 0x2000 (SipHash_Init amd64_OpenBSD 0x1000 key_0f)
       2 4 [1, 0, 0, 0, 0, 0, 0, 0, 2]
     = Inr \<lparr>v0 = 0x75336ed04a9d8de8, v1 = 0x84235358f5c2b36,
      v2 = 0x379270828026833c, v3 = 0x3b67624903a92b6e,
      buf = [2, 0, 0, 0, 0, 0, 0, 0], bytes = 9\<rparr>
   \<and> SipHash_Update amd64_OpenBSD 0x2000
       \<lparr>v0 = 0x7469686173716475, v1 = 0x6b617f6d656e6665,
      v2 = 0x6b7f62616d677361, v3 = 0x7b6b696e727e6c7b,
      buf = [1, 2, 3, 4, 5, 6, 7, 0], bytes = 7\<rparr>
       2 4 [8, 9, 10, 11, 12, 13, 14, 15]
     = Inl BufferOverflow"
proof -
  have a: "SipHash_Update amd64_OpenBSD 0x2000
     \<lparr>v0 = 0x7469686173716475, v1 = 0x6b617f6d656e6665,
      v2 = 0x6b7f62616d677361, v3 = 0x7b6b696e727e6c7b,
      buf = [1, 0, 0, 0, 0, 0, 0, 0], bytes = 1\<rparr>
     2 4 [0, 0, 0, 0, 0, 0, 0, 2]
   = Inr \<lparr>v0 = 0x75336ed04a9d8de8, v1 = 0x84235358f5c2b36,
      v2 = 0x379270828026833c, v3 = 0x3b67624903a92b6e,
      buf = [1, 2, 0, 0, 0, 0, 0, 0], bytes = 9\<rparr>"
    by code_simp
  have b: "SipHash_Update amd64_OpenBSD 0x2000 (SipHash_Init amd64_OpenBSD 0x1000 key_0f)
       2 4 [1, 0, 0, 0, 0, 0, 0, 0, 2]
     = Inr \<lparr>v0 = 0x75336ed04a9d8de8, v1 = 0x84235358f5c2b36,
      v2 = 0x379270828026833c, v3 = 0x3b67624903a92b6e,
      buf = [2, 0, 0, 0, 0, 0, 0, 0], bytes = 9\<rparr>"
    by code_simp
  have c: "SipHash_Update amd64_OpenBSD 0x2000
       \<lparr>v0 = 0x7469686173716475, v1 = 0x6b617f6d656e6665,
      v2 = 0x6b7f62616d677361, v3 = 0x7b6b696e727e6c7b,
      buf = [1, 2, 3, 4, 5, 6, 7, 0], bytes = 7\<rparr>
       2 4 [8, 9, 10, 11, 12, 13, 14, 15]
     = Inl BufferOverflow"
    by code_simp
  from a b c show ?thesis by (intro conjI)
qed

subsection \<open>The staging buffer after several updates\<close>

text \<open>
  What does hold in every state a sequence of updates reaches (either build, round
  count not negative): the byte counter has grown by the number of bytes passed, so the
  count modulo 8 is the length of the input modulo 8, and the staging buffer has its
  eight bytes.
\<close>

lemma unat_of_nat_mod:
  assumes "d dvd 2 ^ 64"
  shows "unat (of_nat n :: u64) mod d = n mod d"
proof -
  have "unat (of_nat n :: u64) = n mod 2 ^ 64"
    by (simp add: unat_of_nat)
  then show ?thesis using assms by (simp only: mod_mod_cancel)
qed

lemma dvd8: "(8 :: nat) dvd 2 ^ 64"
proof -
  have "(2 :: nat) ^ 3 dvd 2 ^ 64" by (rule le_imp_power_dvd) simp
  then show ?thesis by simp
qed

lemma dvd256: "(256 :: nat) dvd 2 ^ 64"
proof -
  have "(2 :: nat) ^ 8 dvd 2 ^ 64" by (rule le_imp_power_dvd) simp
  then show ?thesis by simp
qed

lemma memcpy_buf_length:
  "length b = 8 \<Longrightarrow> n \<le> length ptr \<Longrightarrow> memcpy_buf b off ptr n = Inr b' \<Longrightarrow> length b' = 8"
  by (auto simp: memcpy_buf_def sizeof_buf_def split: if_splits)

lemma Update_rest_count:
  assumes "0 \<le> sint rc" "length (buf c) = 8" "Update_rest tgt p c rc used ptr = Inr c'"
  shows "bytes c' = bytes c \<and> length (buf c') = 8"
proof -
  obtain c2 where r: "Update_loop tgt p c rc ptr = Inr (c2, trailing ptr)"
    and b: "bytes c2 = bytes c" and l: "length (buf c2) = 8"
    using Update_loop_shape [OF assms(1,2)] by blast
  show ?thesis
  proof (cases "trailing ptr = []")
    case True
    then show ?thesis using assms(3) r b l by (simp add: Update_rest_def)
  next
    case False
    then obtain b' where m: "memcpy_buf (buf c2) used (trailing ptr) (length (trailing ptr)) = Inr b'"
      and c': "c' = c2\<lparr>buf := b'\<rparr>"
      using assms(3) r by (auto simp: Update_rest_def split: sum.splits)
    have "length b' = 8" using memcpy_buf_length [OF l _ m] by simp
    then show ?thesis using c' b by simp
  qed
qed

lemma SipHash_Update_count:
  assumes "0 \<le> sint rc" "length (buf ctx) = 8" "SipHash_Update tgt p ctx rc rf src = Inr c'"
  shows "bytes c' = bytes ctx + of_nat (length src) \<and> length (buf c') = 8"
proof (cases "src = []")
  case True
  then show ?thesis using assms by (simp add: SipHash_Update_empty)
next
  case ne: False
  let ?u = "unat (bytes ctx) mod 8"
  let ?c = "ctx\<lparr>bytes := bytes ctx + of_nat (length src)\<rparr>"
  have u8: "?u < 8" by simp
  show ?thesis
  proof (cases "?u = 0")
    case True
    then have "Update_rest tgt p ?c rc 0 src = Inr c'"
      using assms(3) ne by (simp add: SipHash_Update_def Let_def sizeof_buf_def)
    from Update_rest_count [OF assms(1) _ this] show ?thesis using assms(2) by simp
  next
    case used: False
    show ?thesis
    proof (cases "length src < 8 - ?u")
      case True
      then show ?thesis using SipHash_Update_append [of ctx src tgt p rc rf] assms ne used u8
        by auto
    next
      case False
      then have enough: "8 - ?u \<le> length src" by simp
      let ?b = "take ?u (buf ctx) @ take (8 - ?u) src"
      have lb: "length ?b = 8" using assms(2) enough u8 by simp
      have m: "memcpy_buf (buf ctx) ?u src (8 - ?u) = Inr ?b"
        using assms(2) u8 by (simp add: memcpy_buf_def sizeof_buf_def)
      obtain c1 where cr: "SipHash_CRounds tgt p (?c\<lparr>buf := ?b\<rparr>) rc = Inr c1"
        using SipHash_CRounds_nonneg [OF assms(1)] by blast
      have l1: "length (buf c1) = 8" and b1: "bytes c1 = bytes ctx + of_nat (length src)"
        using SipHash_CRounds_Inr_buf_bytes [OF cr] lb by simp_all
      have "Update_rest tgt p c1 rc ?u (drop (8 - ?u) src) = Inr c'"
        using assms(3) used enough ne m cr
        by (simp add: SipHash_Update_def Let_def sizeof_buf_def)
      from Update_rest_count [OF assms(1) l1 this] show ?thesis using b1 by simp
    qed
  qed
qed

lemma SipHash_Updates_count:
  assumes "0 \<le> sint rc"
  shows "length (buf c) = 8 \<Longrightarrow> SipHash_Updates tgt p c rc rf chunks = Inr c' \<Longrightarrow>
         bytes c' = bytes c + of_nat (length (concat chunks)) \<and> length (buf c') = 8"
proof (induction chunks arbitrary: c)
  case Nil
  then show ?case by simp
next
  case (Cons chunk chunks)
  from Cons.prems(2) obtain c1 where
    u: "SipHash_Update tgt p c rc rf chunk = Inr c1"
    and r: "SipHash_Updates tgt p c1 rc rf chunks = Inr c'"
    by (auto split: sum.splits)
  from SipHash_Update_count [OF assms Cons.prems(1) u]
  have b1: "bytes c1 = bytes c + of_nat (length chunk)" and l1: "length (buf c1) = 8"
    by simp_all
  from Cons.IH [OF l1 r] show ?case using b1 by (simp add: add.assoc)
qed

lemma SipHash_Updates_from_Init_count:
  assumes "0 \<le> sint rc"
    and "SipHash_Updates tgt p (SipHash_Init tgt key_p key) rc rf chunks = Inr c'"
  shows "unat (bytes c') mod 8 = length (concat chunks) mod 8 \<and> length (buf c') = 8"
proof -
  have i: "bytes (SipHash_Init tgt key_p key) = 0" "length (buf (SipHash_Init tgt key_p key)) = 8"
    by (simp_all add: SipHash_Init_def Let_def sizeof_buf_def)
  from SipHash_Updates_count [OF assms(1) i(2) assms(2)] i(1)
  have "bytes c' = of_nat (length (concat chunks))" and l: "length (buf c') = 8"
    by simp_all
  then show ?thesis using unat_of_nat_mod [OF dvd8, of "length (concat chunks)"]
    by (simp del: length_concat)
qed

text \<open>
  C6. The claim: in every state that \<open>SipHash_Init\<close> and a sequence of updates
  reach, the byte count modulo 8 is the number of valid, not yet absorbed bytes at the
  start of the staging buffer, and these are the trailing bytes of the input passed so
  far. The count is right (\<open>SipHash_Updates_from_Init_count\<close>), the bytes are not, and
  the theorem runs both builds at an input where they are not. After
  \<open>SipHash_Init\<close> and the two updates \<open>01\<close> and \<open>00 00 00 00 00 00 00 02\<close> the byte
  count is 9, so one byte is valid in the staging buffer; that byte is \<open>01\<close>, the first
  byte of the input, which the first block has absorbed already, while the trailing
  byte of the input, \<open>02\<close>, lies at \<open>buf[1]\<close>.
\<close>

theorem SipHash_Updates_staged_is_not_trailing:
  "SipHash_Updates amd64_OpenBSD 0x2000 (SipHash_Init amd64_OpenBSD 0x1000 key_0f) 2 4
       [[1], [0, 0, 0, 0, 0, 0, 0, 2]]
     = Inr \<lparr>v0 = 0x75336ed04a9d8de8, v1 = 0x84235358f5c2b36,
      v2 = 0x379270828026833c, v3 = 0x3b67624903a92b6e,
      buf = [1, 2, 0, 0, 0, 0, 0, 0], bytes = 9\<rparr>
   \<and> SipHash_Updates amd64_FreeBSD 0x2000 (SipHash_Init amd64_FreeBSD 0x1000 key_0f) 2 4
       [[1], [0, 0, 0, 0, 0, 0, 0, 2]]
     = Inr \<lparr>v0 = 0xad4bfd90a1c5ab4c, v1 = 0x9d0dad19360d4eee,
      v2 = 0x843ecaf431055dee, v3 = 0x7a2c04e826f6aeb2,
      buf = [1, 2, 0, 0, 0, 0, 0, 0], bytes = 9\<rparr>
   \<and> staged \<lparr>v0 = 0x75336ed04a9d8de8, v1 = 0x84235358f5c2b36,
      v2 = 0x379270828026833c, v3 = 0x3b67624903a92b6e,
      buf = [1, 2, 0, 0, 0, 0, 0, 0], bytes = 9\<rparr> = [1]
   \<and> staged \<lparr>v0 = 0xad4bfd90a1c5ab4c, v1 = 0x9d0dad19360d4eee,
      v2 = 0x843ecaf431055dee, v3 = 0x7a2c04e826f6aeb2,
      buf = [1, 2, 0, 0, 0, 0, 0, 0], bytes = 9\<rparr> = [1]
   \<and> trailing (concat [[1], [0, 0, 0, 0, 0, 0, 0, 2]]) = [2]"
proof -
  have a: "SipHash_Updates amd64_OpenBSD 0x2000 (SipHash_Init amd64_OpenBSD 0x1000 key_0f)
       2 4 [[1], [0, 0, 0, 0, 0, 0, 0, 2]]
     = Inr \<lparr>v0 = 0x75336ed04a9d8de8, v1 = 0x84235358f5c2b36,
      v2 = 0x379270828026833c, v3 = 0x3b67624903a92b6e,
      buf = [1, 2, 0, 0, 0, 0, 0, 0], bytes = 9\<rparr>"
    by code_simp
  have b: "SipHash_Updates amd64_FreeBSD 0x2000 (SipHash_Init amd64_FreeBSD 0x1000 key_0f)
       2 4 [[1], [0, 0, 0, 0, 0, 0, 0, 2]]
     = Inr \<lparr>v0 = 0xad4bfd90a1c5ab4c, v1 = 0x9d0dad19360d4eee,
      v2 = 0x843ecaf431055dee, v3 = 0x7a2c04e826f6aeb2,
      buf = [1, 2, 0, 0, 0, 0, 0, 0], bytes = 9\<rparr>"
    by code_simp
  have c: "staged \<lparr>v0 = 0x75336ed04a9d8de8, v1 = 0x84235358f5c2b36,
      v2 = 0x379270828026833c, v3 = 0x3b67624903a92b6e,
      buf = [1, 2, 0, 0, 0, 0, 0, 0], bytes = 9\<rparr> = [1]"
    by code_simp
  have d: "staged \<lparr>v0 = 0xad4bfd90a1c5ab4c, v1 = 0x9d0dad19360d4eee,
      v2 = 0x843ecaf431055dee, v3 = 0x7a2c04e826f6aeb2,
      buf = [1, 2, 0, 0, 0, 0, 0, 0], bytes = 9\<rparr> = [1]"
    by code_simp
  have e: "trailing (concat [[1], [0, 0, 0, 0, 0, 0, 0, 2 :: u8]]) = [2]"
    by code_simp
  from a b c d e show ?thesis by (intro conjI)
qed

subsection \<open>Streaming against the one-shot function\<close>

text \<open>
  Without \<open>__FreeBSD__\<close> and with round counts that are not negative, the one-shot
  function is the SipHash of the specification on every key and every byte string; the
  fifteen-byte test vector of the SipHash paper comes out.
\<close>

lemma final_block_counted:
  assumes "take (n mod 8) b = t"
  shows "final_block b (of_nat n)
       = t @ replicate (7 - n mod 8) 0 @ [of_nat (n mod 256)]"
  using assms by (simp add: final_block_def unat_of_nat_mod [OF dvd8] unat_of_nat_mod [OF dvd256])

lemma SipHash_OpenBSD_is_SipHash_spec:
  assumes "platform tgt = OpenBSD" "0 \<le> sint rc" "0 \<le> sint rf"
  shows "SipHash tgt ctx_p key_p key rc rf s
       = Inr (SipHash_spec (lemtoh64 (k0 key)) (lemtoh64 (k1 key))
                (nat (sint rc)) (nat (sint rf)) s)"
proof -
  let ?c0 = "SipHash_Init tgt key_p key"
  let ?w0 = "(0x736f6d6570736575 XOR lemtoh64 (k0 key), 0x646f72616e646f6d XOR lemtoh64 (k1 key),
              0x6c7967656e657261 XOR lemtoh64 (k0 key), 0x7465646279746573 XOR lemtoh64 (k1 key))"
  have i: "state_words ?c0 = ?w0" "bytes ?c0 = 0" "length (buf ?c0) = 8"
    by (simp_all add: SipHash_Init_OpenBSD [OF assms(1)] state_words_def)
  have "\<exists>c'. SipHash_Update tgt ctx_p ?c0 rc rf s = Inr c'
       \<and> state_words c' = blocks_spec (nat (sint rc)) s ?w0
       \<and> bytes c' = of_nat (length s) \<and> length (buf c') = 8
       \<and> take (length s mod 8) (buf c') = trailing s"
  proof (cases "s = []")
    case True
    then show ?thesis using i
      by (simp add: SipHash_Update_empty blocks_spec.simps [of _ "[]"] trailing_def)
  next
    case False
    have "unat (bytes ?c0) mod 8 = 0" using i(2) by simp
    from SipHash_Update_aligned_OpenBSD [OF assms(1,2) i(3) this False, of ctx_p rf]
    show ?thesis using i by simp
  qed
  then obtain c' where u: "SipHash_Update tgt ctx_p ?c0 rc rf s = Inr c'"
    and w: "state_words c' = blocks_spec (nat (sint rc)) s ?w0"
    and b: "bytes c' = of_nat (length s)" and l: "length (buf c') = 8"
    and t: "take (length s mod 8) (buf c') = trailing s"
    by blast
  have fb: "final_block (buf c') (bytes c')
      = trailing s @ replicate (7 - length s mod 8) 0 @ [of_nat (length s mod 256)]"
    using final_block_counted [OF t] b by simp
  have e: "SipHash_End tgt ctx_p c' rc rf
      = Inr (SipHash_End_spec c' (nat (sint rc)) (nat (sint rf)), zero_ctx)"
    by (rule SipHash_End_OpenBSD [OF assms(1) l assms(2,3)])
  have "SipHash_End_spec c' (nat (sint rc)) (nat (sint rf))
      = SipHash_spec (lemtoh64 (k0 key)) (lemtoh64 (k1 key)) (nat (sint rc)) (nat (sint rf)) s"
    by (simp add: SipHash_End_spec_def SipHash_spec_def fb w)
  then show ?thesis using u e by (simp add: SipHash_def Let_def)
qed

lemma SipHash_2_4_test_vector:
  "SipHash amd64_OpenBSD 0x2000 0x1000 key_0f 2 4
     [0, 1, 2, 3, 4, 5, 6, 7, 8, 9, 10, 11, 12, 13, 14] = Inr 0xa129ca6149be45e5"
  by code_simp

text \<open>
  C1. The claim: for every key, round counts, byte string and way of cutting the
  string into consecutive chunks, \<open>SipHash_Init\<close>, one \<open>SipHash_Update\<close> per chunk
  and \<open>SipHash_End\<close> give the digest of the one-shot \<open>SipHash\<close>. The theorem runs the
  code at two inputs where they do not. Without \<open>__FreeBSD__\<close>, key
  \<open>00 .. 0f\<close>, SipHash-2-4: the nine bytes \<open>01 00 00 00 00 00 00 00 02\<close> hash to
  \<open>0x4c1ac8d1e9bd4f72\<close> in one shot and to \<open>0xcfe4dcc78da65546\<close> when they are
  passed as the two chunks \<open>01\<close> and \<open>00 00 00 00 00 00 00 02\<close>. In the build with
  \<open>__FreeBSD__\<close> the fifteen bytes \<open>01 .. 0f\<close> have a digest in one shot; passed as a
  chunk of seven bytes and a chunk of eight, the second update writes past the end of
  the staging buffer.
\<close>

theorem SipHash_stream_differs_from_SipHash:
  "SipHash_stream amd64_OpenBSD 0x2000 0x1000 key_0f 2 4 [[1], [0, 0, 0, 0, 0, 0, 0, 2]]
     = Inr 0xcfe4dcc78da65546
   \<and> SipHash amd64_OpenBSD 0x2000 0x1000 key_0f 2 4 (concat [[1], [0, 0, 0, 0, 0, 0, 0, 2]])
     = Inr 0x4c1ac8d1e9bd4f72
   \<and> SipHash_stream amd64_FreeBSD 0x2000 0x1000 key_0f 2 4
       [[1, 2, 3, 4, 5, 6, 7], [8, 9, 10, 11, 12, 13, 14, 15]]
     = Inl BufferOverflow
   \<and> SipHash amd64_FreeBSD 0x2000 0x1000 key_0f 2 4
       (concat [[1, 2, 3, 4, 5, 6, 7], [8, 9, 10, 11, 12, 13, 14, 15]])
     = Inr 0x831adb9629bcc44f"
proof -
  have a: "SipHash_stream amd64_OpenBSD 0x2000 0x1000 key_0f 2 4
      [[1], [0, 0, 0, 0, 0, 0, 0, 2]] = Inr 0xcfe4dcc78da65546"
    by code_simp
  have b: "SipHash amd64_OpenBSD 0x2000 0x1000 key_0f 2 4
      (concat [[1], [0, 0, 0, 0, 0, 0, 0, 2]]) = Inr 0x4c1ac8d1e9bd4f72"
    by code_simp
  have c: "SipHash_stream amd64_FreeBSD 0x2000 0x1000 key_0f 2 4
       [[1, 2, 3, 4, 5, 6, 7], [8, 9, 10, 11, 12, 13, 14, 15]] = Inl BufferOverflow"
    by code_simp
  have d: "SipHash amd64_FreeBSD 0x2000 0x1000 key_0f 2 4
       (concat [[1, 2, 3, 4, 5, 6, 7], [8, 9, 10, 11, 12, 13, 14, 15]])
     = Inr 0x831adb9629bcc44f"
    by code_simp
  from a b c d show ?thesis by (intro conjI)
qed

subsection \<open>What the build with \<open>__FreeBSD__\<close> hashes\<close>

text \<open>
  Under \<open>__FreeBSD__\<close> every block absorbed, the final one included, is the converted
  address of the staging buffer, and the initial state comes from the address of the
  key. So \<open>SipHash_End\<close> depends on the state words alone, not on the staging buffer
  or the byte counter, and the digest of the one-shot function depends on the two
  addresses and on the number of complete blocks of the message, not on the key or on
  any byte of the message.
\<close>

lemma SipHash_End_spec_finish:
  "SipHash_End_spec ctx rc rf
   = finish_spec rc rf (lemtoh64 (final_block (buf ctx) (bytes ctx))) (state_words ctx)"
  by (simp add: SipHash_End_spec_def finish_spec_def)

lemma digest_finish:
  "(v0 ((SipRound ^^ kf) (absorb k m c\<lparr>v2 := v2 (absorb k m c) XOR 0xff\<rparr>))
      XOR v1 ((SipRound ^^ kf) (absorb k m c\<lparr>v2 := v2 (absorb k m c) XOR 0xff\<rparr>)))
   XOR (v2 ((SipRound ^^ kf) (absorb k m c\<lparr>v2 := v2 (absorb k m c) XOR 0xff\<rparr>))
      XOR v3 ((SipRound ^^ kf) (absorb k m c\<lparr>v2 := v2 (absorb k m c) XOR 0xff\<rparr>)))
   = finish_spec k kf m (state_words c)"
proof -
  define c1 where "c1 = absorb k m c"
  define c2 where "c2 = (SipRound ^^ kf) (c1\<lparr>v2 := v2 c1 XOR 0xff\<rparr>)"
  have w1: "state_words c1 = compress_spec k m (state_words c)"
    by (simp add: c1_def state_words_absorb)
  have w2: "state_words c2 = (SipRound_spec ^^ kf) (v0 c1, v1 c1, v2 c1 XOR 0xff, v3 c1)"
    by (simp add: c2_def state_words_funpow) (simp add: state_words_def)
  have "finish_spec k kf m (state_words c) = (v0 c2 XOR v1 c2) XOR (v2 c2 XOR v3 c2)"
    using w1 w2 by (auto simp: finish_spec_def state_words_def split: prod.splits)
  then show ?thesis by (simp add: c2_def c1_def)
qed

lemma SipHash_End_FreeBSD:
  assumes "platform tgt = FreeBSD" "0 \<le> sint rc" "0 \<le> sint rf"
  shows "SipHash_End tgt p ctx rc rf
         = Inr (finish_spec (nat (sint rc)) (nat (sint rf)) (le64toh tgt (p + offsetof_buf))
                  (state_words ctx), zero_ctx)"
proof -
  have "state_words (ctx\<lparr>buf := b\<rparr>) = state_words ctx" for b
    by (simp add: state_words_def)
  then show ?thesis
    by (simp add: SipHash_End_def Let_def SipHash_CRounds_FreeBSD [OF assms(1,2)]
        SipHash_Rounds_nonneg [OF assms(3)] explicit_bzero_zero digest_finish)
qed

lemma Update_loop_FreeBSD:
  assumes "platform tgt = FreeBSD" "0 \<le> sint rc"
  shows "length (buf c) = 8 \<Longrightarrow>
    \<exists>c'. Update_loop tgt p c rc ptr = Inr (c', trailing ptr)
       \<and> state_words c'
          = (compress_spec (nat (sint rc)) (le64toh tgt (p + offsetof_buf)) ^^ (length ptr div 8))
              (state_words c)
       \<and> bytes c' = bytes c \<and> length (buf c') = 8"
proof (induction "length ptr" arbitrary: ptr c rule: less_induct)
  case less
  let ?m = "le64toh tgt (p + offsetof_buf)"
  let ?k = "nat (sint rc)"
  show ?case
  proof (cases "length ptr < 8")
    case True
    then show ?thesis using less.prems by (simp add: Update_loop_short trailing_def)
  next
    case False
    then have ge: "8 \<le> length ptr" by simp
    define c1 where "c1 = absorb ?k ?m (c\<lparr>buf := take 8 ptr\<rparr>)"
    have cr: "SipHash_CRounds tgt p (c\<lparr>buf := take 8 ptr\<rparr>) rc = Inr c1"
      using SipHash_CRounds_FreeBSD [OF assms, of p "c\<lparr>buf := take 8 ptr\<rparr>"]
      by (simp add: c1_def)
    have l1: "length (buf c1) = 8" using ge by (simp add: c1_def absorb_buf_bytes)
    have b1: "bytes c1 = bytes c" by (simp add: c1_def absorb_buf_bytes)
    have w1: "state_words c1 = compress_spec ?k ?m (state_words c)"
      by (simp add: c1_def state_words_absorb) (simp add: state_words_def)
    have step: "Update_loop tgt p c rc ptr = Update_loop tgt p c1 rc (drop 8 ptr)"
      using ge less.prems
      by (subst Update_loop.simps) (simp add: memcpy_buf_whole cr sizeof_buf_def)
    have "length (drop 8 ptr) < length ptr" using ge by simp
    from less.hyps [OF this l1] obtain c' where
      r: "Update_loop tgt p c1 rc (drop 8 ptr) = Inr (c', trailing (drop 8 ptr))"
      and w: "state_words c'
          = (compress_spec ?k ?m ^^ (length (drop 8 ptr) div 8)) (state_words c1)"
      and b: "bytes c' = bytes c1" and l: "length (buf c') = 8"
      by blast
    have m: "(length ptr - 8) mod 8 = length ptr mod 8"
      using ge by (simp add: le_mod_geq)
    have "length ptr mod 8 \<le> length ptr - 8"
      using ge m by (metis mod_less_eq_dividend)
    then have d: "trailing (drop 8 ptr) = trailing ptr"
      using ge m by (simp add: trailing_def)
    have "length ptr div 8 = Suc ((length ptr - 8) div 8)"
      using ge by (simp add: le_div_geq)
    then have "(compress_spec ?k ?m ^^ (length ptr div 8)) (state_words c)
        = (compress_spec ?k ?m ^^ (length (drop 8 ptr) div 8)) (state_words c1)"
      by (simp add: w1 funpow_swap1)
    then show ?thesis using step r w b l b1 d by simp
  qed
qed

lemma SipHash_FreeBSD_ignores_message:
  assumes "platform tgt = FreeBSD" "0 \<le> sint rc" "0 \<le> sint rf"
  shows "SipHash tgt ctx_p key_p key rc rf s
       = Inr (finish_spec (nat (sint rc)) (nat (sint rf)) (le64toh tgt (ctx_p + offsetof_buf))
               ((compress_spec (nat (sint rc)) (le64toh tgt (ctx_p + offsetof_buf))
                   ^^ (length s div 8))
                  (0x736f6d6570736575 XOR le64toh tgt key_p,
                   0x646f72616e646f6d XOR le64toh tgt (key_p + 8),
                   0x6c7967656e657261 XOR le64toh tgt key_p,
                   0x7465646279746573 XOR le64toh tgt (key_p + 8))))"
proof -
  let ?c0 = "SipHash_Init tgt key_p key"
  let ?m = "le64toh tgt (ctx_p + offsetof_buf)"
  let ?k = "nat (sint rc)"
  let ?w0 = "(0x736f6d6570736575 XOR le64toh tgt key_p,
              0x646f72616e646f6d XOR le64toh tgt (key_p + 8),
              0x6c7967656e657261 XOR le64toh tgt key_p,
              0x7465646279746573 XOR le64toh tgt (key_p + 8))"
  have i: "state_words ?c0 = ?w0" "bytes ?c0 = 0" "length (buf ?c0) = 8"
    by (simp_all add: SipHash_Init_FreeBSD [OF assms(1)] state_words_def)
  have "\<exists>c'. SipHash_Update tgt ctx_p ?c0 rc rf s = Inr c'
       \<and> state_words c' = (compress_spec ?k ?m ^^ (length s div 8)) ?w0"
  proof (cases "s = []")
    case True
    then show ?thesis using i by (simp add: SipHash_Update_empty)
  next
    case False
    let ?d = "?c0\<lparr>bytes := bytes ?c0 + of_nat (length s)\<rparr>"
    have u: "SipHash_Update tgt ctx_p ?c0 rc rf s = Update_rest tgt ctx_p ?d rc 0 s"
      using i(2) False by (simp add: SipHash_Update_def Let_def sizeof_buf_def)
    have lc: "length (buf ?d) = 8" using i(3) by simp
    from Update_loop_FreeBSD [OF assms(1,2) lc, of ctx_p s] obtain c1 where
      r: "Update_loop tgt ctx_p ?d rc s = Inr (c1, trailing s)"
      and w: "state_words c1 = (compress_spec ?k ?m ^^ (length s div 8)) (state_words ?d)"
      by blast
    have sw: "state_words ?d = ?w0" using i(1) by (simp add: state_words_def)
    have lt: "length (trailing s) < 8" by (simp add: length_trailing)
    show ?thesis
    proof (cases "trailing s = []")
      case True
      then show ?thesis using u r w sw by (simp add: Update_rest_def)
    next
      case False
      then show ?thesis using u r w sw lt
        by (simp add: Update_rest_def memcpy_buf_def sizeof_buf_def state_words_def)
    qed
  qed
  then obtain c' where u: "SipHash_Update tgt ctx_p ?c0 rc rf s = Inr c'"
    and w: "state_words c' = (compress_spec ?k ?m ^^ (length s div 8)) ?w0"
    by blast
  show ?thesis
    using u w SipHash_End_FreeBSD [OF assms, of ctx_p c']
    by (simp add: SipHash_def Let_def)
qed

end
